theory Spec2Isabelle
  imports Main "HOL-Library.Sublist"
begin

section \<open>ts-to-zod: the declaration resolver of \<open>generate\<close>\<close>

text \<open>
  A shallow embedding of \<^verbatim>\<open>src/core/generate.ts\<close>. The function \<^verbatim>\<open>generate\<close>
  parses a TypeScript source text, compiles every selected interface or type alias into a
  candidate zod schema statement with the list of schema names it references, orders the
  statements in rounds so that a statement is declared after the statements it references,
  and renders two texts (the schemas file and the integration tests file).

  The TypeScript compiler API, the \<^verbatim>\<open>case\<close> package and the sibling modules
  (\<^verbatim>\<open>generateZodSchema\<close>, \<^verbatim>\<open>transformRecursiveSchema\<close>,
  \<^verbatim>\<open>generateZodInferredType\<close>, \<^verbatim>\<open>generateIntegrationTests\<close>) are imported by
  \<^verbatim>\<open>generate.ts\<close> and are not part of it: they are parameters of the model, collected in
  the record \<open>collaborators\<close>. JavaScript numbers are modelled as \<open>int\<close> (a \<^verbatim>\<open>maxRun\<close>
  that is fractional, infinite or NaN is outside the model), JavaScript strings as \<open>string\<close>.
\<close>

subsection \<open>JavaScript containers\<close>

text \<open>
  A JavaScript \<^verbatim>\<open>Map\<close> iterates in insertion order, and \<^verbatim>\<open>set\<close> on a key that is
  present replaces the value and keeps the position of the key: the map is an association
  list with distinct keys. A JavaScript \<^verbatim>\<open>Set\<close> iterates in insertion order as well: it
  is a list without duplicates.
\<close>

definition Map_has :: "('k \<times> 'v) list \<Rightarrow> 'k \<Rightarrow> bool" where
  "Map_has m k = (k \<in> set (map fst m))"

fun Map_set :: "('k \<times> 'v) list \<Rightarrow> 'k \<Rightarrow> 'v \<Rightarrow> ('k \<times> 'v) list" where
  "Map_set [] k v = [(k, v)]"
| "Map_set ((k', v') # m) k v = (if k' = k then (k, v) # m else (k', v') # Map_set m k v)"

definition Map_size :: "('k \<times> 'v) list \<Rightarrow> nat" where
  "Map_size m = length m"

definition Map_keys :: "('k \<times> 'v) list \<Rightarrow> 'k list" where
  "Map_keys m = map fst m"

definition Map_values :: "('k \<times> 'v) list \<Rightarrow> 'v list" where
  "Map_values m = map snd m"

definition Set_add :: "'a list \<Rightarrow> 'a \<Rightarrow> 'a list" where
  "Set_add s x = (if x \<in> set s then s else s @ [x])"

text \<open>\<^verbatim>\<open>Array.prototype.join\<close>.\<close>

fun join :: "string \<Rightarrow> string list \<Rightarrow> string" where
  "join sep [] = []"
| "join sep [x] = x"
| "join sep (x # y # ys) = x @ sep @ join sep (y # ys)"

subsection \<open>Data\<close>

text \<open>
  An element of \<^verbatim>\<open>zodSchemas\<close> (lines 68 to 80):
  \<^verbatim>\<open>{ typeName, varName, ...zodSchema }\<close>, where \<^verbatim>\<open>zodSchema\<close> carries the
  \<^verbatim>\<open>statement\<close> and its \<^verbatim>\<open>dependencies\<close>.
\<close>

record 'node zodSchema =
  typeName :: string
  varName :: string
  statement :: 'node
  dependencies :: "string list"

text \<open>
  A value of the map \<^verbatim>\<open>statements\<close> (lines 84 to 87):
  \<^verbatim>\<open>{ typeName: string; value: ts.VariableStatement }\<close>. The fields are prefixed, since
  \<open>typeName\<close> is a field of \<open>zodSchema\<close> already.
\<close>

record 'node resolvedStatement =
  entry_typeName :: string
  entry_value :: 'node

text \<open>The two mutable containers of the resolver: \<^verbatim>\<open>statements\<close> and \<^verbatim>\<open>typeImports\<close>.\<close>

record 'node resolverState =
  statements :: "(string \<times> 'node resolvedStatement) list"
  typeImports :: "string list"

text \<open>\<^verbatim>\<open>GenerateProps\<close> (lines 8 to 34); an optional property is an \<open>option\<close>.\<close>

record GenerateProps =
  sourceText :: string
  maxRun :: "int option"
  nameFilter :: "(string \<Rightarrow> bool) option"
  getSchemaName :: "(string \<Rightarrow> string) option"
  keepComments :: "bool option"

text \<open>The object returned by \<^verbatim>\<open>generate\<close> (lines 188 to 213).\<close>

record GenerateResult =
  getZodSchemasFile :: "string \<Rightarrow> string"
  getIntegrationTestFile :: "string \<Rightarrow> string \<Rightarrow> string"
  errors :: "string list"
  hasCircularDependencies :: bool

text \<open>
  The imported functions that \<^verbatim>\<open>generate\<close> calls. All TypeScript syntax nodes (the
  source file, the declarations, the generated statements) have the one type \<open>'node\<close>.
  \<^item> \<open>createSourceFile fileName text\<close>: \<^verbatim>\<open>ts.createSourceFile(fileName, text, ts.ScriptTarget.Latest)\<close>;
  \<^item> \<open>forEachChild node\<close>: the children that \<^verbatim>\<open>ts.forEachChild\<close> visits, in order
    (the visitor of line 58 returns nothing, so every child is visited);
  \<^item> \<open>name_text node\<close>: \<^verbatim>\<open>node.name.text\<close>;
  \<^item> \<open>camel\<close>: \<^verbatim>\<open>camel\<close> of the package \<^verbatim>\<open>case\<close>;
  \<^item> \<open>generateZodSchemaVariableStatement zodImportValue node sourceFile varName getDependencyName\<close>
    returns the pair of \<^verbatim>\<open>statement\<close> and \<^verbatim>\<open>dependencies\<close>;
  \<^item> \<open>transformRecursiveSchema zodImportValue statement typeName\<close>;
  \<^item> \<open>printNode removeComments sourceFile node\<close>: the printer created at line 130, applied as
    \<^verbatim>\<open>printer.printNode(ts.EmitHint.Unspecified, node, sourceFile)\<close>;
  \<^item> \<open>generateIntegrationTests\<close> takes the list of pairs \<^verbatim>\<open>(zodType, tsType)\<close>;
  \<^item> \<open>generateZodInferredType aliasName zodConstName zodImportValue\<close>.
\<close>

record 'node collaborators =
  createSourceFile :: "string \<Rightarrow> string \<Rightarrow> 'node"
  forEachChild :: "'node \<Rightarrow> 'node list"
  isInterfaceDeclaration :: "'node \<Rightarrow> bool"
  isTypeAliasDeclaration :: "'node \<Rightarrow> bool"
  name_text :: "'node \<Rightarrow> string"
  camel :: "string \<Rightarrow> string"
  generateZodSchemaVariableStatement ::
    "string \<Rightarrow> 'node \<Rightarrow> 'node \<Rightarrow> string \<Rightarrow> (string \<Rightarrow> string) \<Rightarrow> 'node \<times> string list"
  transformRecursiveSchema :: "string \<Rightarrow> 'node \<Rightarrow> string \<Rightarrow> 'node"
  printNode :: "bool \<Rightarrow> 'node \<Rightarrow> 'node \<Rightarrow> string"
  generateIntegrationTests :: "(string \<times> string) list \<Rightarrow> 'node list"
  generateZodInferredType :: "string \<Rightarrow> string \<Rightarrow> string \<Rightarrow> 'node"

subsection \<open>Defaults of the options (lines 43 to 46)\<close>

definition maxRun_of :: "GenerateProps \<Rightarrow> int" where
  "maxRun_of props = (case maxRun props of None \<Rightarrow> 10 | Some m \<Rightarrow> m)"

definition nameFilter_of :: "GenerateProps \<Rightarrow> string \<Rightarrow> bool" where
  "nameFilter_of props = (case nameFilter props of None \<Rightarrow> (\<lambda>name. True) | Some f \<Rightarrow> f)"

definition getSchemaName_of :: "'node collaborators \<Rightarrow> GenerateProps \<Rightarrow> string \<Rightarrow> string" where
  "getSchemaName_of env props =
     (case getSchemaName props of None \<Rightarrow> (\<lambda>id. camel env id @ ''Schema'') | Some f \<Rightarrow> f)"

definition keepComments_of :: "GenerateProps \<Rightarrow> bool" where
  "keepComments_of props = (case keepComments props of None \<Rightarrow> False | Some b \<Rightarrow> b)"

subsection \<open>Extraction and compilation of the candidates (lines 48 to 80)\<close>

definition sourceFile_of :: "'node collaborators \<Rightarrow> GenerateProps \<Rightarrow> 'node" where
  "sourceFile_of env props = createSourceFile env ''index.ts'' (sourceText props)"

definition nodes :: "'node collaborators \<Rightarrow> GenerateProps \<Rightarrow> 'node list" where
  "nodes env props =
     filter (\<lambda>node. (isInterfaceDeclaration env node \<or> isTypeAliasDeclaration env node)
                    \<and> nameFilter_of props (name_text env node))
       (forEachChild env (sourceFile_of env props))"

definition zodSchemas :: "'node collaborators \<Rightarrow> GenerateProps \<Rightarrow> 'node zodSchema list" where
  "zodSchemas env props =
     map (\<lambda>node.
            let typeName = name_text env node;
                varName = getSchemaName_of env props typeName;
                zodSchema = generateZodSchemaVariableStatement env ''z'' node
                              (sourceFile_of env props) varName (getSchemaName_of env props)
            in \<lparr>typeName = typeName, varName = varName,
                statement = fst zodSchema, dependencies = snd zodSchema\<rparr>)
       (nodes env props)"

subsection \<open>The resolver (lines 82 to 113)\<close>

text \<open>Lines 96 to 98: the dependencies other than the candidate itself that are not declared yet.\<close>

definition missingDependencies :: "'node resolverState \<Rightarrow> 'node zodSchema \<Rightarrow> string list" where
  "missingDependencies s z =
     filter (\<lambda>dep. \<not> Map_has (statements s) dep)
       (filter (\<lambda>dep. dep \<noteq> varName z) (dependencies z))"

text \<open>
  Lines 94 to 110: the callback of \<^verbatim>\<open>forEach\<close>. It reads the map \<^verbatim>\<open>statements\<close> as it
  is when the candidate is visited, and so sees what the same pass has stored before.
\<close>

definition visit ::
  "(string \<Rightarrow> 'node \<Rightarrow> string \<Rightarrow> 'node) \<Rightarrow> 'node resolverState \<Rightarrow> 'node zodSchema \<Rightarrow> 'node resolverState"
where
  "visit transform s z =
     (let isCircular = (varName z \<in> set (dependencies z)) in
      if length (missingDependencies s z) = 0 then
        if isCircular then
          s\<lparr>typeImports := Set_add (typeImports s) (typeName z),
            statements := Map_set (statements s) (varName z)
              \<lparr>entry_typeName = typeName z,
               entry_value = transform ''z'' (statement z) (typeName z)\<rparr>\<rparr>
        else
          s\<lparr>statements := Map_set (statements s) (varName z)
              \<lparr>entry_typeName = typeName z, entry_value = statement z\<rparr>\<rparr>
      else s)"

text \<open>
  Line 93: \<^verbatim>\<open>filter\<close> builds the array of the candidates that are not declared when the
  round starts, before \<^verbatim>\<open>forEach\<close> visits any of them.
\<close>

definition pending :: "'node zodSchema list \<Rightarrow> 'node resolverState \<Rightarrow> 'node zodSchema list" where
  "pending zs s = filter (\<lambda>z. \<not> Map_has (statements s) (varName z)) zs"

text \<open>Lines 92 to 110: the body of the \<^verbatim>\<open>while\<close> loop without the increment, one round.\<close>

definition resolve_round ::
  "(string \<Rightarrow> 'node \<Rightarrow> string \<Rightarrow> 'node) \<Rightarrow> 'node zodSchema list \<Rightarrow> 'node resolverState \<Rightarrow> 'node resolverState"
where
  "resolve_round transform zs s = foldl (visit transform) s (pending zs s)"

text \<open>
  Lines 90 to 113: the \<^verbatim>\<open>while\<close> loop, from the counter \<open>n\<close> and the state \<open>s\<close>, with
  \<open>max_run\<close> the value of \<^verbatim>\<open>maxRun\<close>. It returns the final counter (the number of rounds
  run when started from 0) and the final state.
\<close>

function resolve_loop ::
  "(string \<Rightarrow> 'node \<Rightarrow> string \<Rightarrow> 'node) \<Rightarrow> 'node zodSchema list \<Rightarrow> int \<Rightarrow> int \<Rightarrow> 'node resolverState
     \<Rightarrow> int \<times> 'node resolverState"
where
  "resolve_loop transform zs max_run n s =
     (if Map_size (statements s) \<noteq> length zs \<and> n < max_run
      then resolve_loop transform zs max_run (n + 1) (resolve_round transform zs s)
      else (n, s))"
  by pat_completeness auto
termination
  by (relation "measure (\<lambda>(transform, zs, max_run, n, s). nat (max_run - n))") auto

declare resolve_loop.simps [simp del]

text \<open>Lines 84 to 90: both containers start empty.\<close>

definition initialState :: "'node resolverState" where
  "initialState = \<lparr>statements = [], typeImports = []\<rparr>"

definition resolve ::
  "(string \<Rightarrow> 'node \<Rightarrow> string \<Rightarrow> 'node) \<Rightarrow> 'node zodSchema list \<Rightarrow> int \<Rightarrow> int \<times> 'node resolverState"
where
  "resolve transform zs max_run = resolve_loop transform zs max_run 0 initialState"

text \<open>The state at the end of the loop of \<^verbatim>\<open>generate\<close>, and the number of rounds it ran.\<close>

definition resolved :: "'node collaborators \<Rightarrow> GenerateProps \<Rightarrow> 'node resolverState" where
  "resolved env props =
     snd (resolve (transformRecursiveSchema env) (zodSchemas env props) (maxRun_of props))"

definition rounds_run :: "'node collaborators \<Rightarrow> GenerateProps \<Rightarrow> int" where
  "rounds_run env props =
     fst (resolve (transformRecursiveSchema env) (zodSchemas env props) (maxRun_of props))"

subsection \<open>The report of the unresolved candidates (lines 115 to 127)\<close>

definition missingStatements :: "'node zodSchema list \<Rightarrow> 'node resolverState \<Rightarrow> 'node zodSchema list" where
  "missingStatements zs s = filter (\<lambda>z. \<not> Map_has (statements s) (varName z)) zs"

definition error_message :: "'node zodSchema list \<Rightarrow> string" where
  "error_message missing =
     ''Some schemas can't be generated due to circular dependencies:\<newline>''
     @ join ''\<newline>'' (map varName missing)"

definition errors_of :: "'node zodSchema list \<Rightarrow> 'node resolverState \<Rightarrow> string list" where
  "errors_of zs s =
     (let missing = missingStatements zs s in
      if length missing \<noteq> 0 then [error_message missing] else [])"

subsection \<open>The two output texts (lines 129 to 186)\<close>

definition print :: "'node collaborators \<Rightarrow> GenerateProps \<Rightarrow> 'node \<Rightarrow> string" where
  "print env props node = printNode env (\<not> keepComments_of props) (sourceFile_of env props) node"

definition zodSchemasFile ::
  "'node collaborators \<Rightarrow> GenerateProps \<Rightarrow> 'node resolverState \<Rightarrow> string \<Rightarrow> string"
where
  \<open>zodSchemasFile env props s typesImportPath =
     (let imports = typeImports s in
      ''// Generated by ts-to-zod\<newline>''
      @ ''import { z } from "zod";\<newline>''
      @ (if length imports \<noteq> 0
         then ''import { '' @ join '', '' imports @ '' } from "'' @ typesImportPath @ ''";\<newline>''
         else [])
      @ ''\<newline>''
      @ join ''\<newline>\<newline>''
          (map (\<lambda>statement. print env props (entry_value statement)) (Map_values (statements s)))
      @ ''\<newline>'')\<close>

definition testCases :: "'node collaborators \<Rightarrow> GenerateProps \<Rightarrow> 'node resolverState \<Rightarrow> 'node list" where
  "testCases env props s =
     generateIntegrationTests env
       (map (\<lambda>i. (getSchemaName_of env props (entry_typeName i) @ ''InferredType'',
                  ''spec.'' @ entry_typeName i))
          (Map_values (statements s)))"

definition integrationTestFile ::
  "'node collaborators \<Rightarrow> GenerateProps \<Rightarrow> 'node resolverState \<Rightarrow> string \<Rightarrow> string \<Rightarrow> string"
where
  \<open>integrationTestFile env props s typesImportPath zodSchemasImportPath =
     ''// Generated by ts-to-zod\<newline>''
     @ ''import { z } from "zod";\<newline>''
     @ ''\<newline>''
     @ ''import * as spec from "'' @ typesImportPath @ ''";\<newline>''
     @ ''import * as generated from "'' @ zodSchemasImportPath @ ''";\<newline>''
     @ ''\<newline>''
     @ ''// eslint-disable-next-line @typescript-eslint/no-unused-vars\<newline>''
     @ ''function expectType<T>(_: T) {\<newline>''
     @ ''  /* noop */\<newline>''
     @ ''}\<newline>''
     @ ''\<newline>''
     @ join ''\<newline>\<newline>''
         (map (\<lambda>statement.
                 print env props
                   (generateZodInferredType env
                      (getSchemaName_of env props (entry_typeName statement) @ ''InferredType'')
                      (''generated.'' @ getSchemaName_of env props (entry_typeName statement))
                      ''z''))
            (Map_values (statements s)))
     @ ''\<newline>''
     @ join ''\<newline>'' (map (print env props) (testCases env props s))
     @ ''\<newline>''\<close>

subsection \<open>\<^verbatim>\<open>generate\<close> (lines 41 to 214)\<close>

definition generate :: "'node collaborators \<Rightarrow> GenerateProps \<Rightarrow> GenerateResult" where
  "generate env props =
     (let s = resolved env props;
          imports = typeImports s
      in \<lparr>getZodSchemasFile = zodSchemasFile env props s,
          getIntegrationTestFile = integrationTestFile env props s,
          errors = errors_of (zodSchemas env props) s,
          hasCircularDependencies = (length imports > 0)\<rparr>)"

subsection \<open>Notions used to state the properties\<close>

text \<open>
  The test of line 99 as a predicate: every dependency of the candidate other than its own
  name is a key of \<^verbatim>\<open>statements\<close>.
\<close>

definition eligible :: "'node resolverState \<Rightarrow> 'node zodSchema \<Rightarrow> bool" where
  "eligible s z = (\<forall>dep\<in>set (dependencies z). dep \<noteq> varName z \<longrightarrow> Map_has (statements s) dep)"

text \<open>The value that lines 100 to 108 store for a candidate.\<close>

definition stored_entry ::
  "(string \<Rightarrow> 'node \<Rightarrow> string \<Rightarrow> 'node) \<Rightarrow> 'node zodSchema \<Rightarrow> 'node resolvedStatement"
where
  "stored_entry transform z =
     (if varName z \<in> set (dependencies z)
      then \<lparr>entry_typeName = typeName z, entry_value = transform ''z'' (statement z) (typeName z)\<rparr>
      else \<lparr>entry_typeName = typeName z, entry_value = statement z\<rparr>)"

text \<open>The state after \<open>k\<close> executions of the loop body, from the empty containers.\<close>

definition state_after ::
  "(string \<Rightarrow> 'node \<Rightarrow> string \<Rightarrow> 'node) \<Rightarrow> 'node zodSchema list \<Rightarrow> nat \<Rightarrow> 'node resolverState"
where
  "state_after transform zs k = (resolve_round transform zs ^^ k) initialState"

text \<open>
  A dependency chain: a list of candidates in which every candidate but the first lists the
  name of its predecessor among its dependencies, a reference of a candidate to itself not
  counting.
\<close>

fun dependency_chain :: "'node zodSchema list \<Rightarrow> 'node zodSchema list \<Rightarrow> bool" where
  "dependency_chain zs [] = True"
| "dependency_chain zs [z] = (z \<in> set zs)"
| "dependency_chain zs (y # z # ch) =
     (y \<in> set zs \<and> varName y \<in> set (dependencies z) \<and> varName y \<noteq> varName z
      \<and> dependency_chain zs (z # ch))"

text \<open>
  The dependencies form a graph over the candidates: every dependency of a candidate, its
  own name apart, is the name of a candidate.
\<close>

definition dependencies_closed :: "'node zodSchema list \<Rightarrow> bool" where
  "dependencies_closed zs =
     (\<forall>z\<in>set zs. \<forall>dep\<in>set (dependencies z). dep \<noteq> varName z \<longrightarrow> dep \<in> varName ` set zs)"

subsection \<open>A concrete set of collaborators, for evaluating \<open>generate\<close> on examples\<close>

text \<open>
  A small stand-in for the imported functions, used only to run \<open>generate\<close> on concrete
  inputs. A source file is a list of type aliases, each with its name and the names of the
  types it refers to; the statement generated for an alias is a line of code, and its
  dependencies are the schema names of the types referred to. The parser ignores the text.
\<close>

datatype example_node =
    SourceFile "example_node list"
  | TypeAlias string "string list"
  | Code string

fun example_children :: "example_node \<Rightarrow> example_node list" where
  "example_children (SourceFile ds) = ds"
| "example_children _ = []"

fun example_isTypeAlias :: "example_node \<Rightarrow> bool" where
  "example_isTypeAlias (TypeAlias name refs) = True"
| "example_isTypeAlias _ = False"

fun example_name :: "example_node \<Rightarrow> string" where
  "example_name (TypeAlias name refs) = name"
| "example_name _ = []"

fun example_refs :: "example_node \<Rightarrow> string list" where
  "example_refs (TypeAlias name refs) = refs"
| "example_refs _ = []"

fun example_code :: "example_node \<Rightarrow> string" where
  "example_code (Code c) = c"
| "example_code _ = []"

definition example_collaborators :: "example_node list \<Rightarrow> example_node collaborators" where
  "example_collaborators decls =
     \<lparr>createSourceFile = (\<lambda>fileName text. SourceFile decls),
      forEachChild = example_children,
      isInterfaceDeclaration = (\<lambda>node. False),
      isTypeAliasDeclaration = example_isTypeAlias,
      name_text = example_name,
      camel = (\<lambda>name. name),
      generateZodSchemaVariableStatement =
        (\<lambda>zodImportValue node sourceFile varName getDependencyName.
           (Code (''const '' @ varName), map getDependencyName (example_refs node))),
      transformRecursiveSchema =
        (\<lambda>zodImportValue statement typeName. Code (example_code statement @ '': lazy '' @ typeName)),
      printNode = (\<lambda>removeComments sourceFile node. example_code node),
      generateIntegrationTests = map (\<lambda>(zodType, tsType). Code (zodType @ '' = '' @ tsType)),
      generateZodInferredType =
        (\<lambda>aliasName zodConstName zodImportValue. Code (aliasName @ '' infers '' @ zodConstName))\<rparr>"

definition example_props :: "int option \<Rightarrow> GenerateProps" where
  "example_props max_run =
     \<lparr>sourceText = [], maxRun = max_run, nameFilter = None, getSchemaName = None,
      keepComments = None\<rparr>"

text \<open>
  A naming function that lower-cases the initial of a name before it appends \<^verbatim>\<open>Schema\<close>, as
  the default naming does with \<^verbatim>\<open>camel\<close> of the package \<^verbatim>\<open>case\<close>; of the capital letters
  it knows those that the examples use.
\<close>

definition example_lower :: "char \<Rightarrow> char" where
  "example_lower c =
     (if c = CHR ''A'' then CHR ''a'' else if c = CHR ''B'' then CHR ''b''
      else if c = CHR ''F'' then CHR ''f'' else c)"

fun example_camel_name :: "string \<Rightarrow> string" where
  "example_camel_name [] = ''Schema''"
| "example_camel_name (c # cs) = example_lower c # cs @ ''Schema''"

text \<open>A naming function that gives every type the same schema name.\<close>

definition example_same_name :: "string \<Rightarrow> string" where
  "example_same_name name = ''schema''"

subsection \<open>Invariants of the resolver\<close>

text \<open>
  Every entry of \<^verbatim>\<open>statements\<close> is the entry that the resolver stores for some candidate,
  under the name of that candidate; if the candidate refers to itself, its type name is in
  \<^verbatim>\<open>typeImports\<close>.
\<close>

definition entries_from ::
  "(string \<Rightarrow> 'node \<Rightarrow> string \<Rightarrow> 'node) \<Rightarrow> 'node zodSchema list \<Rightarrow> 'node resolverState \<Rightarrow> bool"
where
  "entries_from tr zs s =
     (\<forall>k e. (k, e) \<in> set (statements s) \<longrightarrow>
        (\<exists>z\<in>set zs. k = varName z \<and> e = stored_entry tr z
           \<and> (varName z \<in> set (dependencies z) \<longrightarrow> typeName z \<in> set (typeImports s))))"

text \<open>
  Every name in \<^verbatim>\<open>typeImports\<close> is the type name of a candidate that refers to itself and
  whose rewritten statement is in \<^verbatim>\<open>statements\<close>.
\<close>

definition imports_from ::
  "(string \<Rightarrow> 'node \<Rightarrow> string \<Rightarrow> 'node) \<Rightarrow> 'node zodSchema list \<Rightarrow> 'node resolverState \<Rightarrow> bool"
where
  "imports_from tr zs s =
     (\<forall>t\<in>set (typeImports s).
        \<exists>z\<in>set zs. typeName z = t \<and> varName z \<in> set (dependencies z)
          \<and> (varName z, stored_entry tr z) \<in> set (statements s))"

text \<open>
  A list of keys is in topological order for the candidates: every dependency of the
  candidate named by a key, its own name apart, is a key at a strictly smaller position.
\<close>

definition topologically_valid :: "'node zodSchema list \<Rightarrow> string list \<Rightarrow> bool" where
  "topologically_valid zs keys =
     (\<forall>i<length keys. \<forall>z\<in>set zs. varName z = keys ! i \<longrightarrow>
        (\<forall>dep\<in>set (dependencies z). dep \<noteq> varName z \<longrightarrow> (\<exists>j<i. keys ! j = dep)))"

text \<open>
  Two candidates that differ at most in the order and the multiplicity in which their
  dependencies are listed.
\<close>

definition same_candidate :: "'node zodSchema \<Rightarrow> 'node zodSchema \<Rightarrow> bool" where
  "same_candidate z z' =
     (typeName z = typeName z' \<and> varName z = varName z' \<and> statement z = statement z'
      \<and> set (dependencies z) = set (dependencies z'))"

section \<open>Properties\<close>

subsection \<open>The containers and one visit\<close>

lemma Map_keys_Map_set:
  "map fst (Map_set m k v) = (if k \<in> set (map fst m) then map fst m else map fst m @ [k])"
  by (induction m) fastforce+

lemma Map_set_fresh: "k \<notin> set (map fst m) \<Longrightarrow> Map_set m k v = m @ [(k, v)]"
  by (induction m) auto

lemma Map_has_Map_set: "Map_has (Map_set m k v) k' = (k' = k \<or> Map_has m k')"
  by (auto simp: Map_has_def Map_keys_Map_set)

lemma Map_set_entries: "e \<in> set (Map_set m k v) \<Longrightarrow> e = (k, v) \<or> e \<in> set m"
  by (induction m) (auto split: if_splits)

lemma Map_set_stored: "(k, v) \<in> set (Map_set m k v)"
  by (induction m) auto

lemma eligible_iff: "(missingDependencies s z = []) = eligible s z"
  by (auto simp: missingDependencies_def filter_empty_conv eligible_def)

lemma visit_eq:
  "visit tr s z =
     (if eligible s z
      then s\<lparr>typeImports :=
               (if varName z \<in> set (dependencies z) then Set_add (typeImports s) (typeName z)
                else typeImports s),
             statements := Map_set (statements s) (varName z) (stored_entry tr z)\<rparr>
      else s)"
  by (simp add: visit_def eligible_iff stored_entry_def)

lemma keys_visit:
  "map fst (statements (visit tr s z)) =
     (if eligible s z \<and> \<not> Map_has (statements s) (varName z)
      then map fst (statements s) @ [varName z] else map fst (statements s))"
  by (simp add: visit_eq Map_keys_Map_set Map_has_def)

lemma has_visit:
  "Map_has (statements (visit tr s z)) k =
     (Map_has (statements s) k \<or> (k = varName z \<and> eligible s z))"
  unfolding Map_has_def keys_visit by (auto simp: Map_has_def)

lemma typeImports_visit:
  "set (typeImports (visit tr s z)) =
     (if eligible s z \<and> varName z \<in> set (dependencies z)
      then insert (typeName z) (set (typeImports s)) else set (typeImports s))"
  by (auto simp: visit_eq Set_add_def)

lemma eligible_mono:
  "eligible s z \<Longrightarrow> \<forall>k. Map_has (statements s) k \<longrightarrow> Map_has (statements s') k \<Longrightarrow> eligible s' z"
  by (auto simp: eligible_def)

lemma has_foldl_visit_mono:
  "Map_has (statements s) k \<Longrightarrow> Map_has (statements (foldl (visit tr) s ps)) k"
  by (induction ps arbitrary: s) (auto simp: has_visit)


lemma has_round_mono:
  "Map_has (statements s) k \<Longrightarrow> Map_has (statements (resolve_round tr zs s)) k"
  by (simp add: resolve_round_def has_foldl_visit_mono)


text \<open>A candidate that is visited while it is eligible is declared from then on.\<close>

lemma foldl_visit_resolves:
  "z \<in> set ps \<Longrightarrow> eligible s z \<Longrightarrow> Map_has (statements (foldl (visit tr) s ps)) (varName z)"
proof (induction ps arbitrary: s)
  case Nil
  then show ?case by simp
next
  case (Cons p ps)
  show ?case
  proof (cases "z = p")
    case True
    with Cons.prems have "Map_has (statements (visit tr s p)) (varName z)"
      by (simp add: has_visit)
    then show ?thesis by (simp add: has_foldl_visit_mono)
  next
    case False
    with Cons.prems have "z \<in> set ps" by simp
    moreover have "eligible (visit tr s p) z"
      using Cons.prems(2) by (rule eligible_mono) (simp add: has_visit)
    ultimately show ?thesis using Cons.IH by simp
  qed
qed


lemma round_resolves:
  assumes "z \<in> set zs" "eligible s z"
  shows "Map_has (statements (resolve_round tr zs s)) (varName z)"
proof (cases "Map_has (statements s) (varName z)")
  case True
  then show ?thesis by (rule has_round_mono)
next
  case False
  with assms(1) have "z \<in> set (pending zs s)" by (simp add: pending_def)
  then show ?thesis unfolding resolve_round_def using assms(2) by (rule foldl_visit_resolves)
qed

subsection \<open>The report of the unresolved candidates\<close>

lemma sublist_behind: "sublist v ys \<Longrightarrow> sublist v (ps @ ys)"
proof -
  assume "sublist v ys"
  then obtain a b where "ys = a @ v @ b" by (auto simp: sublist_def)
  then have "ps @ ys = (ps @ a) @ v @ b" by simp
  then show ?thesis unfolding sublist_def by blast
qed

lemma sublist_join: "v \<in> set vs \<Longrightarrow> sublist v (join sep vs)"
proof (induction sep vs rule: join.induct)
  case (1 sep)
  then show ?case by simp
next
  case (2 sep x)
  then show ?case by simp
next
  case (3 sep x y ys)
  show ?case
  proof (cases "v = x")
    case True
    then show ?thesis by (simp add: sublist_append_rightI)
  next
    case False
    with 3 have "sublist v (join sep (y # ys))" by simp
    then have "sublist v ((x @ sep) @ join sep (y # ys))" by (rule sublist_behind)
    then show ?thesis by simp
  qed
qed

lemma sublist_error_message: "z \<in> set missing \<Longrightarrow> sublist (varName z) (error_message missing)"
  unfolding error_message_def by (rule sublist_behind, rule sublist_join) simp

lemma missingStatements_iff:
  "z \<in> set (missingStatements zs s) = (z \<in> set zs \<and> \<not> Map_has (statements s) (varName z))"
  by (simp add: missingStatements_def)

lemma errors_generate:
  "errors (generate env props) = errors_of (zodSchemas env props) (resolved env props)"
  by (simp add: generate_def Let_def)

lemma hasCircularDependencies_generate:
  "hasCircularDependencies (generate env props) = (typeImports (resolved env props) \<noteq> [])"
  by (simp add: generate_def Let_def)

lemma errors_of_eq:
  "errors_of zs s =
     (if \<exists>z\<in>set zs. \<not> Map_has (statements s) (varName z)
      then [error_message (missingStatements zs s)] else [])"
  by (auto simp: errors_of_def Let_def missingStatements_def filter_empty_conv)

text \<open>
  Claim C3. The list \<^verbatim>\<open>errors\<close> that \<^verbatim>\<open>generate\<close> returns is not empty exactly when
  some candidate is unresolved after the loop, that is, has a \<^verbatim>\<open>varName\<close> that is not a key
  of \<^verbatim>\<open>statements\<close>. In that case it has one entry, the message built from the unresolved
  candidates, and the \<^verbatim>\<open>varName\<close> of every unresolved candidate occurs in it. When every
  candidate is resolved, \<^verbatim>\<open>errors\<close> is the empty list.
\<close>

theorem errors_nonempty_iff_unresolved:
  "(errors (generate env props) \<noteq> []) =
     (\<exists>z\<in>set (zodSchemas env props). \<not> Map_has (statements (resolved env props)) (varName z))
   \<and> ((\<exists>z\<in>set (zodSchemas env props). \<not> Map_has (statements (resolved env props)) (varName z))
        \<longrightarrow> errors (generate env props)
              = [error_message (missingStatements (zodSchemas env props) (resolved env props))]
          \<and> (\<forall>z\<in>set (zodSchemas env props).
                \<not> Map_has (statements (resolved env props)) (varName z)
                \<longrightarrow> z \<in> set (missingStatements (zodSchemas env props) (resolved env props))
                    \<and> sublist (varName z) (hd (errors (generate env props)))))
   \<and> ((\<forall>z\<in>set (zodSchemas env props). Map_has (statements (resolved env props)) (varName z))
        \<longrightarrow> errors (generate env props) = [])"
  by (auto simp: errors_generate errors_of_eq missingStatements_iff sublist_error_message)

theorem errors_nonempty_iff_unresolved_witness:
  "(\<exists>z\<in>set (zodSchemas
        (example_collaborators [TypeAlias ''Node'' [''Node''], TypeAlias ''A'' [''B''], TypeAlias ''B'' [''A'']])
        (example_props None)).
      \<not> Map_has (statements (resolved
        (example_collaborators [TypeAlias ''Node'' [''Node''], TypeAlias ''A'' [''B''], TypeAlias ''B'' [''A'']])
        (example_props None))) (varName z))
   \<and> errors (generate
        (example_collaborators [TypeAlias ''Node'' [''Node''], TypeAlias ''A'' [''B''], TypeAlias ''B'' [''A'']])
        (example_props None))
     = [''Some schemas can't be generated due to circular dependencies:\<newline>ASchema\<newline>BSchema'']"
proof -
  let ?E = "example_collaborators [TypeAlias ''Node'' [''Node''], TypeAlias ''A'' [''B''], TypeAlias ''B'' [''A'']]"
  let ?P = "example_props None"
  have h: "\<exists>z\<in>set (zodSchemas ?E ?P). \<not> Map_has (statements (resolved ?E ?P)) (varName z)"
    by code_simp
  have m: "error_message (missingStatements (zodSchemas ?E ?P) (resolved ?E ?P))
           = ''Some schemas can't be generated due to circular dependencies:\<newline>ASchema\<newline>BSchema''"
    by code_simp
  from errors_nonempty_iff_unresolved [of ?E ?P] h
  have "errors (generate ?E ?P) = [error_message (missingStatements (zodSchemas ?E ?P) (resolved ?E ?P))]"
    by blast
  with h m show ?thesis by simp
qed

subsection \<open>The keys of the map are distinct names of candidates\<close>

lemma keys_visit_inv:
  assumes "z \<in> set zs" "distinct (map fst (statements s))"
    "set (map fst (statements s)) \<subseteq> varName ` set zs"
  shows "distinct (map fst (statements (visit tr s z)))
         \<and> set (map fst (statements (visit tr s z))) \<subseteq> varName ` set zs"
  using assms unfolding keys_visit by (auto simp: Map_has_def)

lemma keys_foldl_visit_inv:
  "set ps \<subseteq> set zs \<Longrightarrow> distinct (map fst (statements s))
     \<Longrightarrow> set (map fst (statements s)) \<subseteq> varName ` set zs
     \<Longrightarrow> distinct (map fst (statements (foldl (visit tr) s ps)))
         \<and> set (map fst (statements (foldl (visit tr) s ps))) \<subseteq> varName ` set zs"
proof (induction ps arbitrary: s)
  case Nil
  then show ?case by simp
next
  case (Cons p ps)
  from Cons.prems have "p \<in> set zs" by simp
  from keys_visit_inv [OF this Cons.prems(2,3)] Cons.prems(1) Cons.IH [of "visit tr s p"]
  show ?case by simp
qed

lemma keys_round_inv:
  assumes "distinct (map fst (statements s))" "set (map fst (statements s)) \<subseteq> varName ` set zs"
  shows "distinct (map fst (statements (resolve_round tr zs s)))
         \<and> set (map fst (statements (resolve_round tr zs s))) \<subseteq> varName ` set zs"
  unfolding resolve_round_def
  by (rule keys_foldl_visit_inv [OF _ assms]) (auto simp: pending_def)

lemma state_after_0: "state_after tr zs 0 = initialState"
  by (simp add: state_after_def)

lemma state_after_Suc: "state_after tr zs (Suc k) = resolve_round tr zs (state_after tr zs k)"
  by (simp add: state_after_def)

lemma keys_state_after_inv:
  "distinct (map fst (statements (state_after tr zs k)))
   \<and> set (map fst (statements (state_after tr zs k))) \<subseteq> varName ` set zs"
proof (induction k)
  case 0
  show ?case by (simp add: state_after_0 initialState_def)
next
  case (Suc k)
  then show ?case unfolding state_after_Suc using keys_round_inv by blast
qed

text \<open>When the map has as many keys as there are candidates, every candidate is declared.\<close>

lemma full_size_all_declared:
  assumes "distinct (map fst (statements s))" "set (map fst (statements s)) \<subseteq> varName ` set zs"
    "Map_size (statements s) = length zs" "z \<in> set zs"
  shows "Map_has (statements s) (varName z)"
proof -
  have "card (varName ` set zs) \<le> card (set zs)" by (rule card_image_le) simp
  also have "\<dots> \<le> length zs" by (rule card_length)
  finally have le: "card (varName ` set zs) \<le> length zs" .
  have "card (set (map fst (statements s))) = length (map fst (statements s))"
    using assms(1) by (rule distinct_card)
  with assms(3) have "card (set (map fst (statements s))) = length zs"
    by (simp add: Map_size_def)
  with le have "card (varName ` set zs) \<le> card (set (map fst (statements s)))" by simp
  with assms(2) have "set (map fst (statements s)) = varName ` set zs"
    by (intro card_seteq) simp_all
  with assms(4) show ?thesis by (auto simp: Map_has_def)
qed

text \<open>With distinct names, the converse holds.\<close>

lemma all_declared_full_size:
  assumes "distinct (map fst (statements s))" "set (map fst (statements s)) \<subseteq> varName ` set zs"
    "distinct (map varName zs)" "\<forall>z\<in>set zs. Map_has (statements s) (varName z)"
  shows "Map_size (statements s) = length zs"
proof -
  have "set (map fst (statements s)) = set (map varName zs)"
    using assms(2,4) by (auto simp: Map_has_def)
  then have "card (set (map fst (statements s))) = card (set (map varName zs))" by simp
  moreover have "card (set (map fst (statements s))) = length (map fst (statements s))"
    using assms(1) by (rule distinct_card)
  moreover have "card (set (map varName zs)) = length (map varName zs)"
    using assms(3) by (rule distinct_card)
  ultimately show ?thesis by (simp add: Map_size_def)
qed

subsection \<open>The loop as an iteration of rounds\<close>

lemma resolve_loop_step:
  "Map_size (statements s) \<noteq> length zs \<and> n < m
     \<Longrightarrow> resolve_loop tr zs m n s = resolve_loop tr zs m (n + 1) (resolve_round tr zs s)"
  by (subst resolve_loop.simps) auto

lemma resolve_loop_stop:
  "\<not> (Map_size (statements s) \<noteq> length zs \<and> n < m) \<Longrightarrow> resolve_loop tr zs m n s = (n, s)"
  by (subst resolve_loop.simps) auto

lemma resolve_loop_iterates:
  "\<exists>j. resolve_loop tr zs m n s = (n + int j, (resolve_round tr zs ^^ j) s)
       \<and> (\<forall>i<j. Map_size (statements ((resolve_round tr zs ^^ i) s)) \<noteq> length zs \<and> n + int i < m)
       \<and> \<not> (Map_size (statements ((resolve_round tr zs ^^ j) s)) \<noteq> length zs \<and> n + int j < m)"
proof (induction tr zs m n s rule: resolve_loop.induct)
  case (1 tr zs m n s)
  let ?rr = "resolve_round tr zs"
  show ?case
  proof (cases "Map_size (statements s) \<noteq> length zs \<and> n < m")
    case False
    then have "resolve_loop tr zs m n s = (n + int 0, (?rr ^^ 0) s)"
      by (simp add: resolve_loop_stop)
    moreover have "\<forall>i<0::nat. Map_size (statements ((?rr ^^ i) s)) \<noteq> length zs \<and> n + int i < m"
      by simp
    moreover have "\<not> (Map_size (statements ((?rr ^^ 0) s)) \<noteq> length zs \<and> n + int 0 < m)"
      using False by simp
    ultimately show ?thesis by (rule_tac x = 0 in exI) (intro conjI)
  next
    case True
    from 1 [OF True] obtain j where j:
      "resolve_loop tr zs m (n + 1) (?rr s) = (n + 1 + int j, (?rr ^^ j) (?rr s))
       \<and> (\<forall>i<j. Map_size (statements ((?rr ^^ i) (?rr s))) \<noteq> length zs \<and> n + 1 + int i < m)
       \<and> \<not> (Map_size (statements ((?rr ^^ j) (?rr s))) \<noteq> length zs \<and> n + 1 + int j < m)"
      ..
    have swap: "(?rr ^^ i) (?rr s) = (?rr ^^ Suc i) s" for i
      by (simp add: funpow_swap1)
    have "resolve_loop tr zs m n s = resolve_loop tr zs m (n + 1) (?rr s)"
      using True by (rule resolve_loop_step)
    with j have a: "resolve_loop tr zs m n s = (n + int (Suc j), (?rr ^^ Suc j) s)"
      unfolding swap by (simp add: algebra_simps)
    have b: "\<forall>i<Suc j. Map_size (statements ((?rr ^^ i) s)) \<noteq> length zs \<and> n + int i < m"
    proof (intro allI impI)
      fix i assume i: "i < Suc j"
      show "Map_size (statements ((?rr ^^ i) s)) \<noteq> length zs \<and> n + int i < m"
      proof (cases i)
        case 0
        with True show ?thesis by simp
      next
        case (Suc i')
        with i have "i' < j" by simp
        with j have "Map_size (statements ((?rr ^^ i') (?rr s))) \<noteq> length zs \<and> n + 1 + int i' < m"
          by simp
        then show ?thesis unfolding swap Suc by (simp add: algebra_simps)
      qed
    qed
    have c: "\<not> (Map_size (statements ((?rr ^^ Suc j) s)) \<noteq> length zs \<and> n + int (Suc j) < m)"
      using j unfolding swap by (auto simp: algebra_simps)
    from a b c show ?thesis by (rule_tac x = "Suc j" in exI) (intro conjI)
  qed
qed

lemma resolve_rounds:
  obtains N where "resolve tr zs m = (int N, state_after tr zs N)"
    and "\<And>i. i < N \<Longrightarrow> Map_size (statements (state_after tr zs i)) \<noteq> length zs \<and> int i < m"
    and "Map_size (statements (state_after tr zs N)) = length zs \<or> m \<le> int N"
proof -
  from resolve_loop_iterates [of tr zs m 0 initialState] obtain j where
    "resolve_loop tr zs m 0 initialState = (0 + int j, (resolve_round tr zs ^^ j) initialState)"
    "\<forall>i<j. Map_size (statements ((resolve_round tr zs ^^ i) initialState)) \<noteq> length zs \<and> 0 + int i < m"
    "\<not> (Map_size (statements ((resolve_round tr zs ^^ j) initialState)) \<noteq> length zs \<and> 0 + int j < m)"
    by blast
  then show thesis
    by (intro that [of j]) (auto simp: resolve_def state_after_def)
qed



subsection \<open>A bound on the rounds that is not positive\<close>

text \<open>
  Claim C9. When \<^verbatim>\<open>maxRun\<close> is zero or negative and there is at least one candidate, the
  loop body never runs: the round counter stays 0 and both containers stay empty. Every
  candidate is then reported: \<^verbatim>\<open>errors\<close> has the single message built from all the
  candidates, in which the \<^verbatim>\<open>varName\<close> of each occurs. The schemas file consists of its
  fixed header, and the integration tests file of its fixed header followed by what the
  test generator returns for no statement at all. \<^verbatim>\<open>hasCircularDependencies\<close> is false.
  Nothing is assumed about the dependencies.
\<close>

theorem maxRun_not_positive:
  assumes "maxRun_of props \<le> 0" and "zodSchemas env props \<noteq> []"
  shows \<open>rounds_run env props = 0
    \<and> resolved env props = initialState
    \<and> (\<forall>z\<in>set (zodSchemas env props). \<not> Map_has (statements (resolved env props)) (varName z))
    \<and> errors (generate env props) = [error_message (zodSchemas env props)]
    \<and> (\<forall>z\<in>set (zodSchemas env props). sublist (varName z) (hd (errors (generate env props))))
    \<and> getZodSchemasFile (generate env props) typesImportPath
        = ''// Generated by ts-to-zod\<newline>import { z } from "zod";\<newline>\<newline>\<newline>''
    \<and> getIntegrationTestFile (generate env props) typesImportPath zodSchemasImportPath
        = ''// Generated by ts-to-zod\<newline>import { z } from "zod";\<newline>\<newline>''
          @ ''import * as spec from "'' @ typesImportPath @ ''";\<newline>''
          @ ''import * as generated from "'' @ zodSchemasImportPath @ ''";\<newline>\<newline>''
          @ ''// eslint-disable-next-line @typescript-eslint/no-unused-vars\<newline>''
          @ ''function expectType<T>(_: T) {\<newline>  /* noop */\<newline>}\<newline>\<newline>\<newline>''
          @ join ''\<newline>'' (map (print env props) (generateIntegrationTests env []))
          @ ''\<newline>''
    \<and> \<not> hasCircularDependencies (generate env props)\<close>
proof -
  let ?zs = "zodSchemas env props"
  have loop: "resolve (transformRecursiveSchema env) ?zs (maxRun_of props) = (0, initialState)"
    unfolding resolve_def using assms(1) by (intro resolve_loop_stop) simp
  then have r: "resolved env props = initialState" and n: "rounds_run env props = 0"
    by (simp_all add: resolved_def rounds_run_def)
  have none: "\<forall>z\<in>set ?zs. \<not> Map_has (statements (resolved env props)) (varName z)"
    by (simp add: r initialState_def Map_has_def)
  have missing: "missingStatements ?zs (resolved env props) = ?zs"
    by (simp add: r missingStatements_def initialState_def Map_has_def)
  from assms(2) obtain z where "z \<in> set ?zs" by (cases ?zs) auto
  with none have ex: "\<exists>z\<in>set ?zs. \<not> Map_has (statements (resolved env props)) (varName z)"
    by blast
  have e: "errors (generate env props) = [error_message ?zs]"
    by (simp add: errors_generate errors_of_eq ex missing)
  have sub: "\<forall>z\<in>set ?zs. sublist (varName z) (hd (errors (generate env props)))"
    by (simp add: e sublist_error_message)
  have f1: \<open>getZodSchemasFile (generate env props) typesImportPath
        = ''// Generated by ts-to-zod\<newline>import { z } from "zod";\<newline>\<newline>\<newline>''\<close>
    by (simp add: generate_def Let_def r zodSchemasFile_def initialState_def Map_values_def)
  have f2: \<open>getIntegrationTestFile (generate env props) typesImportPath zodSchemasImportPath
        = ''// Generated by ts-to-zod\<newline>import { z } from "zod";\<newline>\<newline>''
          @ ''import * as spec from "'' @ typesImportPath @ ''";\<newline>''
          @ ''import * as generated from "'' @ zodSchemasImportPath @ ''";\<newline>\<newline>''
          @ ''// eslint-disable-next-line @typescript-eslint/no-unused-vars\<newline>''
          @ ''function expectType<T>(_: T) {\<newline>  /* noop */\<newline>}\<newline>\<newline>\<newline>''
          @ join ''\<newline>'' (map (print env props) (generateIntegrationTests env []))
          @ ''\<newline>''\<close>
    by (simp add: generate_def Let_def r integrationTestFile_def testCases_def initialState_def
        Map_values_def)
  have h: "\<not> hasCircularDependencies (generate env props)"
    by (simp add: hasCircularDependencies_generate r initialState_def)
  from n r none e sub f1 f2 h show ?thesis by (intro conjI)
qed

theorem maxRun_not_positive_witness:
  "maxRun_of (example_props (Some 0)) \<le> 0
   \<and> zodSchemas (example_collaborators [TypeAlias ''A'' [], TypeAlias ''B'' [''A'']])
        (example_props (Some 0)) \<noteq> []
   \<and> errors (generate (example_collaborators [TypeAlias ''A'' [], TypeAlias ''B'' [''A'']])
        (example_props (Some 0)))
     = [''Some schemas can't be generated due to circular dependencies:\<newline>ASchema\<newline>BSchema'']
   \<and> \<not> hasCircularDependencies
        (generate (example_collaborators [TypeAlias ''A'' [], TypeAlias ''B'' [''A'']])
           (example_props (Some 0)))"
proof -
  let ?E = "example_collaborators [TypeAlias ''A'' [], TypeAlias ''B'' [''A'']]"
  let ?P = "example_props (Some 0)"
  have h1: "maxRun_of ?P \<le> 0" by code_simp
  have h2: "zodSchemas ?E ?P \<noteq> []" by code_simp
  have m: "error_message (zodSchemas ?E ?P)
           = ''Some schemas can't be generated due to circular dependencies:\<newline>ASchema\<newline>BSchema''"
    by code_simp
  from maxRun_not_positive [OF h1 h2, of "[]" "[]"] m h1 h2 show ?thesis by simp
qed

subsection \<open>Invariants of the loop\<close>

lemma foldl_visit_invariant:
  assumes step: "\<And>s z. P s \<Longrightarrow> z \<in> set zs \<Longrightarrow> P (visit tr s z)"
  shows "P s \<Longrightarrow> set ps \<subseteq> set zs \<Longrightarrow> P (foldl (visit tr) s ps)"
proof (induction ps arbitrary: s)
  case Nil
  then show ?case by simp
next
  case (Cons p ps)
  from Cons.prems have "P (visit tr s p)" by (intro step) simp_all
  with Cons.prems show ?case by (simp add: Cons.IH)
qed

lemma round_invariant:
  assumes "\<And>s z. P s \<Longrightarrow> z \<in> set zs \<Longrightarrow> P (visit tr s z)" and "P s"
  shows "P (resolve_round tr zs s)"
  unfolding resolve_round_def
proof (rule foldl_visit_invariant [where zs = zs and P = P])
  show "P s" by fact
  show "set (pending zs s) \<subseteq> set zs" by (auto simp: pending_def)
  show "\<And>s z. P s \<Longrightarrow> z \<in> set zs \<Longrightarrow> P (visit tr s z)" by fact
qed

lemma state_after_invariant:
  assumes step: "\<And>s z. P s \<Longrightarrow> z \<in> set zs \<Longrightarrow> P (visit tr s z)" and init: "P initialState"
  shows "P (state_after tr zs k)"
proof (induction k)
  case 0
  show ?case using init by (simp add: state_after_0)
next
  case (Suc k)
  show ?case unfolding state_after_Suc
  proof (rule round_invariant [where zs = zs and P = P])
    show "P (state_after tr zs k)" by (rule Suc)
    show "\<And>s z. P s \<Longrightarrow> z \<in> set zs \<Longrightarrow> P (visit tr s z)" by (rule step)
  qed
qed

lemma resolved_is_state_after:
  "\<exists>N. resolved env props = state_after (transformRecursiveSchema env) (zodSchemas env props) N
       \<and> rounds_run env props = int N"
proof -
  obtain N where "resolve (transformRecursiveSchema env) (zodSchemas env props) (maxRun_of props)
      = (int N, state_after (transformRecursiveSchema env) (zodSchemas env props) N)"
    by (rule resolve_rounds)
  then show ?thesis by (auto simp: resolved_def rounds_run_def)
qed

lemma varName_inj:
  assumes "distinct (map varName zs)" "x \<in> set zs" "y \<in> set zs" "varName x = varName y"
  shows "x = y"
proof -
  from assms(1) have "inj_on varName (set zs)" by (simp add: distinct_map)
  from this assms(4,2,3) show ?thesis by (rule inj_onD)
qed

subsection \<open>A cycle of two candidates\<close>

lemma eligibleD:
  "eligible s z \<Longrightarrow> dep \<in> set (dependencies z) \<Longrightarrow> dep \<noteq> varName z
     \<Longrightarrow> Map_has (statements s) dep"
  by (simp add: eligible_def)

lemma mutual_cycle_visit:
  assumes "\<forall>z\<in>set zs. (varName z = varName a \<longrightarrow> z = a) \<and> (varName z = varName b \<longrightarrow> z = b)"
    "varName b \<in> set (dependencies a)" "varName a \<in> set (dependencies b)"
    "varName a \<notin> set (dependencies a)" "varName b \<notin> set (dependencies b)"
    "\<not> Map_has (statements s) (varName a) \<and> \<not> Map_has (statements s) (varName b)"
    "z \<in> set zs"
  shows "\<not> Map_has (statements (visit tr s z)) (varName a)
         \<and> \<not> Map_has (statements (visit tr s z)) (varName b)"
proof -
  have ne: "varName a \<noteq> varName b" using assms(2,4) by auto
  from assms(1,7) have only: "(varName z = varName a \<longrightarrow> z = a) \<and> (varName z = varName b \<longrightarrow> z = b)"
    by (rule bspec)
  have ea: "\<not> eligible s a"
  proof
    assume "eligible s a"
    from this assms(2) ne [symmetric] have "Map_has (statements s) (varName b)" by (rule eligibleD)
    with assms(6) show False by simp
  qed
  have eb: "\<not> eligible s b"
  proof
    assume "eligible s b"
    from this assms(3) ne have "Map_has (statements s) (varName a)" by (rule eligibleD)
    with assms(6) show False by simp
  qed
  have na: "\<not> (varName a = varName z \<and> eligible s z)"
  proof
    assume h: "varName a = varName z \<and> eligible s z"
    then have "varName z = varName a" by simp
    with only [THEN conjunct1] have za: "z = a" by (rule mp)
    from h have "eligible s z" by (rule conjunct2)
    then have "eligible s a" unfolding za .
    with ea show False by (rule notE)
  qed
  have nb: "\<not> (varName b = varName z \<and> eligible s z)"
  proof
    assume h: "varName b = varName z \<and> eligible s z"
    then have "varName z = varName b" by simp
    with only [THEN conjunct2] have zb: "z = b" by (rule mp)
    from h have "eligible s z" by (rule conjunct2)
    then have "eligible s b" unfolding zb .
    with eb show False by (rule notE)
  qed
  from assms(6) na nb show ?thesis by (simp add: has_visit)
qed

text \<open>
  Claim C6, as amended. Let two candidates each list the \<^verbatim>\<open>varName\<close> of the other among their
  dependencies, and neither its own, and let no other candidate have the \<^verbatim>\<open>varName\<close> of
  either of them (as is the case when the names of the candidates are unique). Then neither
  of the two is a key of \<^verbatim>\<open>statements\<close> after any number of rounds, nor at the end of the
  loop, whatever integer \<^verbatim>\<open>maxRun\<close> is; \<^verbatim>\<open>errors\<close> has a single entry, the message built
  from the unresolved candidates, both candidates are among these, and both names occur in
  the message.
\<close>

theorem mutual_cycle_never_resolves:
  fixes env :: "'node collaborators"
  assumes "a \<in> set (zodSchemas env props)" and "b \<in> set (zodSchemas env props)"
    and "varName b \<in> set (dependencies a)" and "varName a \<in> set (dependencies b)"
    and "varName a \<notin> set (dependencies a)" and "varName b \<notin> set (dependencies b)"
    and "\<forall>z\<in>set (zodSchemas env props).
           (varName z = varName a \<longrightarrow> z = a) \<and> (varName z = varName b \<longrightarrow> z = b)"
  shows "(\<forall>k. \<not> Map_has (statements (state_after (transformRecursiveSchema env) (zodSchemas env props) k)) (varName a)
            \<and> \<not> Map_has (statements (state_after (transformRecursiveSchema env) (zodSchemas env props) k)) (varName b))
    \<and> \<not> Map_has (statements (resolved env props)) (varName a)
    \<and> \<not> Map_has (statements (resolved env props)) (varName b)
    \<and> errors (generate env props)
        = [error_message (missingStatements (zodSchemas env props) (resolved env props))]
    \<and> a \<in> set (missingStatements (zodSchemas env props) (resolved env props))
    \<and> b \<in> set (missingStatements (zodSchemas env props) (resolved env props))
    \<and> sublist (varName a) (hd (errors (generate env props)))
    \<and> sublist (varName b) (hd (errors (generate env props)))"
proof -
  let ?zs = "zodSchemas env props"
  let ?tr = "transformRecursiveSchema env"
  let ?I = "\<lambda>s. \<not> Map_has (statements s) (varName a) \<and> \<not> Map_has (statements s) (varName b)"
  have after: "?I (state_after ?tr ?zs k)" for k
  proof (rule state_after_invariant [where zs = ?zs and P = ?I])
    fix s :: "'node resolverState" and z
    assume "?I s" "z \<in> set ?zs"
    then show "?I (visit ?tr s z)"
      by (rule mutual_cycle_visit [OF assms(7,3,4,5,6)])
  next
    show "?I initialState" by (simp add: initialState_def Map_has_def)
  qed
  obtain N where "resolved env props = state_after ?tr ?zs N"
    using resolved_is_state_after by blast
  with after [of N] have fin: "?I (resolved env props)" by simp
  with assms(1,2) have mem: "a \<in> set (missingStatements ?zs (resolved env props))"
    "b \<in> set (missingStatements ?zs (resolved env props))"
    by (simp_all add: missingStatements_iff)
  from fin assms(1) have e: "errors (generate env props)
      = [error_message (missingStatements ?zs (resolved env props))]"
    by (auto simp: errors_generate errors_of_eq)
  have sub: "sublist (varName a) (hd (errors (generate env props)))"
    "sublist (varName b) (hd (errors (generate env props)))"
    using mem by (simp_all add: e sublist_error_message)
  from after have "\<forall>k. ?I (state_after ?tr ?zs k)" ..
  with fin e mem sub show ?thesis by (intro conjI) simp_all
qed

theorem mutual_cycle_never_resolves_witness:
  "\<not> Map_has (statements (resolved
        (example_collaborators [TypeAlias ''A'' [''B''], TypeAlias ''B'' [''A'']])
        (example_props (Some 1000)))) ''ASchema''
   \<and> \<not> Map_has (statements (resolved
        (example_collaborators [TypeAlias ''A'' [''B''], TypeAlias ''B'' [''A'']])
        (example_props (Some 1000)))) ''BSchema''
   \<and> sublist ''ASchema'' (hd (errors (generate
        (example_collaborators [TypeAlias ''A'' [''B''], TypeAlias ''B'' [''A'']])
        (example_props (Some 1000)))))
   \<and> sublist ''BSchema'' (hd (errors (generate
        (example_collaborators [TypeAlias ''A'' [''B''], TypeAlias ''B'' [''A'']])
        (example_props (Some 1000)))))"
proof -
  let ?E = "example_collaborators [TypeAlias ''A'' [''B''], TypeAlias ''B'' [''A'']]"
  let ?P = "example_props (Some 1000)"
  let ?a = "\<lparr>typeName = ''A'', varName = ''ASchema'', statement = Code ''const ASchema'',
             dependencies = [''BSchema'']\<rparr>"
  let ?b = "\<lparr>typeName = ''B'', varName = ''BSchema'', statement = Code ''const BSchema'',
             dependencies = [''ASchema'']\<rparr>"
  have zs: "zodSchemas ?E ?P = [?a, ?b]" by code_simp
  have "?a \<in> set (zodSchemas ?E ?P)" and "?b \<in> set (zodSchemas ?E ?P)"
    and "varName ?b \<in> set (dependencies ?a)" and "varName ?a \<in> set (dependencies ?b)"
    and "varName ?a \<notin> set (dependencies ?a)" and "varName ?b \<notin> set (dependencies ?b)"
    and "\<forall>z\<in>set (zodSchemas ?E ?P).
           (varName z = varName ?a \<longrightarrow> z = ?a) \<and> (varName z = varName ?b \<longrightarrow> z = ?b)"
    by (simp_all add: zs)
  note r = mutual_cycle_never_resolves [OF this, THEN conjunct2]
  note ra = r [THEN conjunct1]
  note rb = r [THEN conjunct2, THEN conjunct1]
  note sa = r [THEN conjunct2, THEN conjunct2, THEN conjunct2, THEN conjunct2, THEN conjunct2,
               THEN conjunct1]
  note sb = r [THEN conjunct2, THEN conjunct2, THEN conjunct2, THEN conjunct2, THEN conjunct2,
               THEN conjunct2]
  from ra rb sa sb show ?thesis by simp
qed

text \<open>
  Claim C6 as stated fails. With the naming that lower-cases the initial, let the source
  declare \<^verbatim>\<open>A\<close>, which refers to \<^verbatim>\<open>B\<close>, then \<^verbatim>\<open>B\<close>, which refers to \<^verbatim>\<open>A\<close>, then \<^verbatim>\<open>a\<close>, which
  refers to nothing: \<^verbatim>\<open>A\<close> and \<^verbatim>\<open>a\<close> are both named \<^verbatim>\<open>aSchema\<close>. The candidates of \<^verbatim>\<open>A\<close> and
  \<^verbatim>\<open>B\<close> each list the name of the other and neither its own. The first round declares
  \<^verbatim>\<open>aSchema\<close> with the statement of \<^verbatim>\<open>a\<close>; the second round then resolves \<^verbatim>\<open>B\<close>, and
  \<^verbatim>\<open>errors\<close> is empty.
\<close>

theorem mutual_cycle_counterexample:
  "zodSchemas
      (example_collaborators [TypeAlias ''A'' [''B''], TypeAlias ''B'' [''A''], TypeAlias ''a'' []])
      ((example_props None)\<lparr>getSchemaName := Some example_camel_name\<rparr>)
     = [\<lparr>typeName = ''A'', varName = ''aSchema'', statement = Code ''const aSchema'',
         dependencies = [''bSchema'']\<rparr>,
        \<lparr>typeName = ''B'', varName = ''bSchema'', statement = Code ''const bSchema'',
         dependencies = [''aSchema'']\<rparr>,
        \<lparr>typeName = ''a'', varName = ''aSchema'', statement = Code ''const aSchema'',
         dependencies = []\<rparr>]
   \<and> statements (state_after
        (transformRecursiveSchema
           (example_collaborators [TypeAlias ''A'' [''B''], TypeAlias ''B'' [''A''], TypeAlias ''a'' []]))
        (zodSchemas
           (example_collaborators [TypeAlias ''A'' [''B''], TypeAlias ''B'' [''A''], TypeAlias ''a'' []])
           ((example_props None)\<lparr>getSchemaName := Some example_camel_name\<rparr>))
        1)
     = [(''aSchema'', \<lparr>entry_typeName = ''a'', entry_value = Code ''const aSchema''\<rparr>)]
   \<and> statements (resolved
        (example_collaborators [TypeAlias ''A'' [''B''], TypeAlias ''B'' [''A''], TypeAlias ''a'' []])
        ((example_props None)\<lparr>getSchemaName := Some example_camel_name\<rparr>))
     = [(''aSchema'', \<lparr>entry_typeName = ''a'', entry_value = Code ''const aSchema''\<rparr>),
        (''bSchema'', \<lparr>entry_typeName = ''B'', entry_value = Code ''const bSchema''\<rparr>)]
   \<and> errors (generate
        (example_collaborators [TypeAlias ''A'' [''B''], TypeAlias ''B'' [''A''], TypeAlias ''a'' []])
        ((example_props None)\<lparr>getSchemaName := Some example_camel_name\<rparr>)) = []"
  by code_simp

subsection \<open>Where the entries of the two containers come from\<close>

lemma resolved_invariant:
  assumes "\<And>s z. P s \<Longrightarrow> z \<in> set (zodSchemas env props) \<Longrightarrow> P (visit (transformRecursiveSchema env) s z)"
    and "P initialState"
  shows "P (resolved env props)"
proof -
  obtain N where "resolved env props
      = state_after (transformRecursiveSchema env) (zodSchemas env props) N"
    using resolved_is_state_after by blast
  moreover have "P (state_after (transformRecursiveSchema env) (zodSchemas env props) N)"
    by (rule state_after_invariant [where P = P and zs = "zodSchemas env props"]) (fact assms)+
  ultimately show ?thesis by simp
qed

lemma Map_set_other: "(k', e) \<in> set m \<Longrightarrow> k' \<noteq> k \<Longrightarrow> (k', e) \<in> set (Map_set m k v)"
  by (induction m) auto

lemma entries_from_visit:
  assumes "entries_from tr zs s" "z \<in> set zs"
  shows "entries_from tr zs (visit tr s z)"
proof (cases "eligible s z")
  case False
  with assms(1) show ?thesis by (simp add: visit_eq)
next
  case True
  show ?thesis unfolding entries_from_def
  proof (intro allI impI)
    fix k e assume "(k, e) \<in> set (statements (visit tr s z))"
    with True have "(k, e) \<in> set (Map_set (statements s) (varName z) (stored_entry tr z))"
      by (simp add: visit_eq)
    then have "(k, e) = (varName z, stored_entry tr z) \<or> (k, e) \<in> set (statements s)"
      by (rule Map_set_entries)
    then show "\<exists>y\<in>set zs. k = varName y \<and> e = stored_entry tr y
        \<and> (varName y \<in> set (dependencies y) \<longrightarrow> typeName y \<in> set (typeImports (visit tr s z)))"
    proof
      assume "(k, e) = (varName z, stored_entry tr z)"
      with assms(2) True show ?thesis
        by (intro bexI [of _ z]) (simp_all add: typeImports_visit)
    next
      assume "(k, e) \<in> set (statements s)"
      with assms(1) obtain y where y: "y \<in> set zs" "k = varName y" "e = stored_entry tr y"
        "varName y \<in> set (dependencies y) \<longrightarrow> typeName y \<in> set (typeImports s)"
        unfolding entries_from_def by blast
      then show ?thesis
        by (intro bexI [of _ y]) (simp_all add: typeImports_visit)
    qed
  qed
qed

lemma entries_from_resolved:
  "entries_from (transformRecursiveSchema env) (zodSchemas env props) (resolved env props)"
proof (rule resolved_invariant [where P = "entries_from (transformRecursiveSchema env) (zodSchemas env props)"])
  show "entries_from (transformRecursiveSchema env) (zodSchemas env props) initialState"
    by (simp add: entries_from_def initialState_def)
qed (rule entries_from_visit)

lemma imports_from_visit:
  assumes "imports_from tr zs s" "z \<in> set zs" "distinct (map varName zs)"
  shows "imports_from tr zs (visit tr s z)"
proof (cases "eligible s z")
  case False
  with assms(1) show ?thesis by (simp add: visit_eq)
next
  case True
  have st: "statements (visit tr s z) = Map_set (statements s) (varName z) (stored_entry tr z)"
    using True by (simp add: visit_eq)
  have new: "(varName z, stored_entry tr z) \<in> set (statements (visit tr s z))"
    unfolding st by (rule Map_set_stored)
  show ?thesis unfolding imports_from_def
  proof (intro ballI)
    fix t assume t: "t \<in> set (typeImports (visit tr s z))"
    show "\<exists>y\<in>set zs. typeName y = t \<and> varName y \<in> set (dependencies y)
        \<and> (varName y, stored_entry tr y) \<in> set (statements (visit tr s z))"
    proof (cases "t \<in> set (typeImports s)")
      case True
      with assms(1) obtain y where y: "y \<in> set zs" "typeName y = t"
        "varName y \<in> set (dependencies y)" "(varName y, stored_entry tr y) \<in> set (statements s)"
        unfolding imports_from_def by blast
      have "(varName y, stored_entry tr y) \<in> set (statements (visit tr s z))"
      proof (cases "varName y = varName z")
        case True
        with assms(3) y(1) assms(2) have "y = z" by (rule varName_inj)
        with new show ?thesis by simp
      next
        case False
        with y(4) show ?thesis unfolding st by (rule Map_set_other)
      qed
      with y show ?thesis by (intro bexI [of _ y]) simp_all
    next
      case False
      with t have "t = typeName z" "varName z \<in> set (dependencies z)"
        by (auto simp: typeImports_visit split: if_splits)
      with new assms(2) show ?thesis by (intro bexI [of _ z]) simp_all
    qed
  qed
qed

lemma imports_from_resolved:
  assumes "distinct (map varName (zodSchemas env props))"
  shows "imports_from (transformRecursiveSchema env) (zodSchemas env props) (resolved env props)"
proof (rule resolved_invariant [where P = "imports_from (transformRecursiveSchema env) (zodSchemas env props)"])
  show "imports_from (transformRecursiveSchema env) (zodSchemas env props) initialState"
    by (simp add: imports_from_def initialState_def)
qed (rule imports_from_visit [OF _ _ assms])

lemma typeImports_origin_visit:
  assumes "\<forall>t\<in>set (typeImports s). \<exists>z\<in>set zs. typeName z = t \<and> varName z \<in> set (dependencies z)"
    and "z \<in> set zs"
  shows "\<forall>t\<in>set (typeImports (visit tr s z)).
           \<exists>z\<in>set zs. typeName z = t \<and> varName z \<in> set (dependencies z)"
proof
  fix t assume "t \<in> set (typeImports (visit tr s z))"
  then consider "t \<in> set (typeImports s)" | "t = typeName z" "varName z \<in> set (dependencies z)"
    by (auto simp: typeImports_visit split: if_splits)
  then show "\<exists>z\<in>set zs. typeName z = t \<and> varName z \<in> set (dependencies z)"
  proof cases
    case 1
    with assms(1) show ?thesis by (rule bspec)
  next
    case 2
    with assms(2) show ?thesis by (intro bexI [of _ z]) simp_all
  qed
qed

lemma typeImports_origin_resolved:
  "\<forall>t\<in>set (typeImports (resolved env props)).
     \<exists>z\<in>set (zodSchemas env props). typeName z = t \<and> varName z \<in> set (dependencies z)"
proof (rule resolved_invariant [where P = "\<lambda>s. \<forall>t\<in>set (typeImports s).
        \<exists>z\<in>set (zodSchemas env props). typeName z = t \<and> varName z \<in> set (dependencies z)"])
  show "\<forall>t\<in>set (typeImports initialState).
        \<exists>z\<in>set (zodSchemas env props). typeName z = t \<and> varName z \<in> set (dependencies z)"
    by (simp add: initialState_def)
qed (rule typeImports_origin_visit)

subsection \<open>The flag \<^verbatim>\<open>hasCircularDependencies\<close>\<close>

text \<open>
  Claim C4. The flag \<^verbatim>\<open>hasCircularDependencies\<close> that \<^verbatim>\<open>generate\<close> returns is true exactly
  when \<^verbatim>\<open>typeImports\<close> is not empty at the end of the loop. This is the case exactly when
  \<^verbatim>\<open>typeImports\<close> holds the type name of a candidate that lists its own \<^verbatim>\<open>varName\<close> among
  its dependencies; and, the names of the candidates being unique, exactly when such a
  candidate is in \<^verbatim>\<open>statements\<close> with its statement rewritten by
  \<^verbatim>\<open>transformRecursiveSchema\<close>. No condition mentions the candidates that stay unresolved.
\<close>

theorem hasCircularDependencies_iff:
  "(hasCircularDependencies (generate env props) = (typeImports (resolved env props) \<noteq> []))
   \<and> (hasCircularDependencies (generate env props) =
        (\<exists>z\<in>set (zodSchemas env props).
            varName z \<in> set (dependencies z) \<and> typeName z \<in> set (typeImports (resolved env props))))
   \<and> (distinct (map varName (zodSchemas env props)) \<longrightarrow>
        hasCircularDependencies (generate env props) =
        (\<exists>z\<in>set (zodSchemas env props).
            varName z \<in> set (dependencies z)
            \<and> (varName z,
                 \<lparr>entry_typeName = typeName z,
                  entry_value = transformRecursiveSchema env ''z'' (statement z) (typeName z)\<rparr>)
               \<in> set (statements (resolved env props))))"
proof (intro conjI impI)
  let ?zs = "zodSchemas env props" and ?s = "resolved env props"
  let ?tr = "transformRecursiveSchema env"
  show "hasCircularDependencies (generate env props) = (typeImports ?s \<noteq> [])"
    by (rule hasCircularDependencies_generate)
  show "hasCircularDependencies (generate env props) =
        (\<exists>z\<in>set ?zs. varName z \<in> set (dependencies z) \<and> typeName z \<in> set (typeImports ?s))"
  proof
    assume "hasCircularDependencies (generate env props)"
    then have "typeImports ?s \<noteq> []" by (simp add: hasCircularDependencies_generate)
    then obtain t where t: "t \<in> set (typeImports ?s)" by (cases "typeImports ?s") auto
    with typeImports_origin_resolved [of env props]
    obtain z where "z \<in> set ?zs" "typeName z = t" "varName z \<in> set (dependencies z)" by blast
    with t show "\<exists>z\<in>set ?zs. varName z \<in> set (dependencies z) \<and> typeName z \<in> set (typeImports ?s)"
      by blast
  next
    assume "\<exists>z\<in>set ?zs. varName z \<in> set (dependencies z) \<and> typeName z \<in> set (typeImports ?s)"
    then have "typeImports ?s \<noteq> []" by auto
    then show "hasCircularDependencies (generate env props)"
      by (simp add: hasCircularDependencies_generate)
  qed
  assume d: "distinct (map varName ?zs)"
  show "hasCircularDependencies (generate env props) =
        (\<exists>z\<in>set ?zs. varName z \<in> set (dependencies z)
            \<and> (varName z, \<lparr>entry_typeName = typeName z,
                  entry_value = ?tr ''z'' (statement z) (typeName z)\<rparr>) \<in> set (statements ?s))"
  proof
    assume "hasCircularDependencies (generate env props)"
    then have "typeImports ?s \<noteq> []" by (simp add: hasCircularDependencies_generate)
    then obtain t where t: "t \<in> set (typeImports ?s)" by (cases "typeImports ?s") auto
    with imports_from_resolved [OF d]
    obtain z where z: "z \<in> set ?zs" "varName z \<in> set (dependencies z)"
      "(varName z, stored_entry ?tr z) \<in> set (statements ?s)"
      unfolding imports_from_def by blast
    from z(2) have "stored_entry ?tr z = \<lparr>entry_typeName = typeName z,
        entry_value = ?tr ''z'' (statement z) (typeName z)\<rparr>"
      by (simp add: stored_entry_def)
    with z show "\<exists>z\<in>set ?zs. varName z \<in> set (dependencies z)
            \<and> (varName z, \<lparr>entry_typeName = typeName z,
                  entry_value = ?tr ''z'' (statement z) (typeName z)\<rparr>) \<in> set (statements ?s)"
      by (intro bexI [of _ z]) simp_all
  next
    assume "\<exists>z\<in>set ?zs. varName z \<in> set (dependencies z)
            \<and> (varName z, \<lparr>entry_typeName = typeName z,
                  entry_value = ?tr ''z'' (statement z) (typeName z)\<rparr>) \<in> set (statements ?s)"
    then obtain z where z: "z \<in> set ?zs" "varName z \<in> set (dependencies z)"
      "(varName z, \<lparr>entry_typeName = typeName z,
          entry_value = ?tr ''z'' (statement z) (typeName z)\<rparr>) \<in> set (statements ?s)"
      by blast
    from entries_from_resolved [of env props] z(3)
    obtain y where y: "y \<in> set ?zs" "varName z = varName y"
      "varName y \<in> set (dependencies y) \<longrightarrow> typeName y \<in> set (typeImports ?s)"
      unfolding entries_from_def by blast
    from d z(1) y(1,2) have "z = y" by (rule varName_inj)
    with y(3) z(2) have "typeName z \<in> set (typeImports ?s)" by simp
    then have "typeImports ?s \<noteq> []" by auto
    then show "hasCircularDependencies (generate env props)"
      by (simp add: hasCircularDependencies_generate)
  qed
qed

theorem hasCircularDependencies_iff_witness:
  "distinct (map varName (zodSchemas
      (example_collaborators [TypeAlias ''Node'' [''Node''], TypeAlias ''A'' [''B''], TypeAlias ''B'' [''A'']])
      (example_props None)))
   \<and> (\<exists>z\<in>set (zodSchemas
          (example_collaborators [TypeAlias ''Node'' [''Node''], TypeAlias ''A'' [''B''], TypeAlias ''B'' [''A'']])
          (example_props None)).
        varName z \<in> set (dependencies z)
        \<and> (varName z,
             \<lparr>entry_typeName = typeName z,
              entry_value = transformRecursiveSchema
                (example_collaborators [TypeAlias ''Node'' [''Node''], TypeAlias ''A'' [''B''], TypeAlias ''B'' [''A'']])
                ''z'' (statement z) (typeName z)\<rparr>)
           \<in> set (statements (resolved
                (example_collaborators [TypeAlias ''Node'' [''Node''], TypeAlias ''A'' [''B''], TypeAlias ''B'' [''A'']])
                (example_props None))))
   \<and> hasCircularDependencies (generate
        (example_collaborators [TypeAlias ''Node'' [''Node''], TypeAlias ''A'' [''B''], TypeAlias ''B'' [''A'']])
        (example_props None))
   \<and> errors (generate
        (example_collaborators [TypeAlias ''Node'' [''Node''], TypeAlias ''A'' [''B''], TypeAlias ''B'' [''A'']])
        (example_props None)) \<noteq> []"
proof -
  let ?E = "example_collaborators [TypeAlias ''Node'' [''Node''], TypeAlias ''A'' [''B''], TypeAlias ''B'' [''A'']]"
  let ?P = "example_props None"
  have d: "distinct (map varName (zodSchemas ?E ?P))" by code_simp
  have ex: "\<exists>z\<in>set (zodSchemas ?E ?P). varName z \<in> set (dependencies z)
        \<and> (varName z, \<lparr>entry_typeName = typeName z,
              entry_value = transformRecursiveSchema ?E ''z'' (statement z) (typeName z)\<rparr>)
           \<in> set (statements (resolved ?E ?P))"
    by code_simp
  have e: "errors (generate ?E ?P) \<noteq> []" by code_simp
  from hasCircularDependencies_iff [of ?E ?P, THEN conjunct2, THEN conjunct2, rule_format, OF d] ex
  have "hasCircularDependencies (generate ?E ?P)" by (rule iffD2)
  with d ex e show ?thesis by (intro conjI)
qed

subsection \<open>A candidate that refers to itself\<close>





subsection \<open>Dependency chains and the number of rounds\<close>

lemma dependency_chain_snoc:
  "dependency_chain zs (ch @ [y]) \<Longrightarrow> z \<in> set zs \<Longrightarrow> varName y \<in> set (dependencies z)
     \<Longrightarrow> varName y \<noteq> varName z \<Longrightarrow> dependency_chain zs (ch @ [y, z])"
  by (induction zs ch rule: dependency_chain.induct) auto

lemma dependencies_closedD:
  "dependencies_closed zs \<Longrightarrow> z \<in> set zs \<Longrightarrow> dep \<in> set (dependencies z) \<Longrightarrow> dep \<noteq> varName z
     \<Longrightarrow> \<exists>y\<in>set zs. varName y = dep"
  unfolding dependencies_closed_def by (drule (1) bspec, drule (1) bspec) auto

text \<open>
  After \<open>k\<close> rounds, a candidate is declared if every dependency chain that ends at it has
  at most \<open>k\<close> candidates.
\<close>

lemma chain_depth_resolved:
  assumes closed: "dependencies_closed zs"
  shows "z \<in> set zs \<Longrightarrow> (\<forall>ch. dependency_chain zs (ch @ [z]) \<longrightarrow> length ch < k)
           \<Longrightarrow> Map_has (statements (state_after tr zs k)) (varName z)"
proof (induction k arbitrary: z)
  case 0
  from "0.prems"(1) have "dependency_chain zs ([] @ [z])" by simp
  with "0.prems"(2) have "length ([] :: 'a zodSchema list) < 0" by blast
  then show ?case by simp
next
  case (Suc k)
  have "eligible (state_after tr zs k) z"
    unfolding eligible_def
  proof (intro ballI impI)
    fix dep assume dep: "dep \<in> set (dependencies z)" "dep \<noteq> varName z"
    with closed Suc.prems(1) obtain y where y: "y \<in> set zs" "varName y = dep"
      using dependencies_closedD by blast
    have "\<forall>ch. dependency_chain zs (ch @ [y]) \<longrightarrow> length ch < k"
    proof (intro allI impI)
      fix ch assume "dependency_chain zs (ch @ [y])"
      from this Suc.prems(1) have "dependency_chain zs (ch @ [y, z])"
        by (rule dependency_chain_snoc) (use y dep in simp_all)
      then have "dependency_chain zs ((ch @ [y]) @ [z])" by simp
      with Suc.prems(2) have "length (ch @ [y]) < Suc k" by blast
      then show "length ch < k" by simp
    qed
    with y(1) have "Map_has (statements (state_after tr zs k)) (varName y)" by (rule Suc.IH)
    with y(2) show "Map_has (statements (state_after tr zs k)) dep" by simp
  qed
  with Suc.prems(1) show ?case unfolding state_after_Suc by (rule round_resolves)
qed

subsection \<open>The order of the keys\<close>

lemma topologically_valid_visit:
  assumes "distinct (map varName zs)" "z \<in> set zs" "\<not> Map_has (statements s) (varName z)"
    "topologically_valid zs (map fst (statements s))"
  shows "topologically_valid zs (map fst (statements (visit tr s z)))"
proof (cases "eligible s z")
  case False
  with assms(4) show ?thesis by (simp add: keys_visit)
next
  case True
  let ?ks = "map fst (statements s)"
  have ks: "map fst (statements (visit tr s z)) = ?ks @ [varName z]"
    using True assms(3) by (simp add: keys_visit)
  show ?thesis unfolding ks topologically_valid_def
  proof (intro allI impI ballI)
    fix i y dep
    assume i: "i < length (?ks @ [varName z])" and y: "y \<in> set zs"
      and yi: "varName y = (?ks @ [varName z]) ! i"
      and dep: "dep \<in> set (dependencies y)" "dep \<noteq> varName y"
    show "\<exists>j<i. (?ks @ [varName z]) ! j = dep"
    proof (cases "i < length ?ks")
      case True
      with yi have "varName y = ?ks ! i" by (simp add: nth_append)
      with assms(4) True y dep obtain j where j: "j < i" "?ks ! j = dep"
        unfolding topologically_valid_def by blast
      with True have "(?ks @ [varName z]) ! j = dep" by (simp add: nth_append)
      with j(1) show ?thesis by blast
    next
      case False
      with i have ieq: "i = length ?ks" by simp
      with yi have "varName y = varName z" by (simp add: nth_append)
      with assms(1) y assms(2) have "y = z" by (rule varName_inj)
      with \<open>eligible s z\<close> dep have "Map_has (statements s) dep" by (intro eligibleD [of s z]) simp_all
      then have "dep \<in> set ?ks" by (simp add: Map_has_def)
      then obtain j where j: "j < length ?ks" "?ks ! j = dep" by (auto simp: in_set_conv_nth)
      then have "(?ks @ [varName z]) ! j = dep" by (simp add: nth_append)
      with j(1) ieq show ?thesis by blast
    qed
  qed
qed

lemma topologically_valid_foldl_visit:
  assumes d: "distinct (map varName zs)"
  shows "set ps \<subseteq> set zs \<Longrightarrow> distinct (map varName ps)
     \<Longrightarrow> \<forall>p\<in>set ps. \<not> Map_has (statements s) (varName p)
     \<Longrightarrow> topologically_valid zs (map fst (statements s))
     \<Longrightarrow> topologically_valid zs (map fst (statements (foldl (visit tr) s ps)))"
proof (induction ps arbitrary: s)
  case Nil
  then show ?case by simp
next
  case (Cons p ps)
  have p: "p \<in> set zs" "\<not> Map_has (statements s) (varName p)" using Cons.prems by simp_all
  have 1: "topologically_valid zs (map fst (statements (visit tr s p)))"
    using d p Cons.prems(4) by (rule topologically_valid_visit)
  have 2: "\<forall>q\<in>set ps. \<not> Map_has (statements (visit tr s p)) (varName q)"
  proof
    fix q assume q: "q \<in> set ps"
    then have "varName q \<in> varName ` set ps" by (rule imageI)
    with Cons.prems(2) have "varName q \<noteq> varName p" by auto
    moreover from q Cons.prems(3) have "\<not> Map_has (statements s) (varName q)" by simp
    ultimately show "\<not> Map_has (statements (visit tr s p)) (varName q)" by (simp add: has_visit)
  qed
  have "topologically_valid zs (map fst (statements (foldl (visit tr) (visit tr s p) ps)))"
    using Cons.prems(1,2) 2 1 by (intro Cons.IH) simp_all
  then show ?case by simp
qed

lemma topologically_valid_round:
  assumes "distinct (map varName zs)" "topologically_valid zs (map fst (statements s))"
  shows "topologically_valid zs (map fst (statements (resolve_round tr zs s)))"
  unfolding resolve_round_def
proof (rule topologically_valid_foldl_visit [OF assms(1)])
  show "set (pending zs s) \<subseteq> set zs" by (auto simp: pending_def)
  show "distinct (map varName (pending zs s))"
    unfolding pending_def using assms(1) by (rule distinct_map_filter)
  show "\<forall>p\<in>set (pending zs s). \<not> Map_has (statements s) (varName p)" by (simp add: pending_def)
  show "topologically_valid zs (map fst (statements s))" by fact
qed

lemma topologically_valid_state_after:
  assumes "distinct (map varName zs)"
  shows "topologically_valid zs (map fst (statements (state_after tr zs k)))"
proof (induction k)
  case 0
  show ?case by (simp add: state_after_0 initialState_def topologically_valid_def)
next
  case (Suc k)
  with assms show ?case unfolding state_after_Suc by (rule topologically_valid_round)
qed

lemma dependency_chain_snoc_iff:
  "dependency_chain zs (ch @ [y, z]) =
     (dependency_chain zs (ch @ [y]) \<and> z \<in> set zs \<and> varName y \<in> set (dependencies z)
      \<and> varName y \<noteq> varName z)"
  by (induction zs ch rule: dependency_chain.induct) auto

text \<open>A ranking of the names that every dependency decreases bounds the chains.\<close>

lemma dependency_chain_rank:
  assumes rank: "\<And>y z. y \<in> set zs \<Longrightarrow> z \<in> set zs \<Longrightarrow> varName y \<in> set (dependencies z)
      \<Longrightarrow> varName y \<noteq> varName z \<Longrightarrow> r (varName y) < r (varName z)"
  shows "dependency_chain zs (ch @ [z]) \<Longrightarrow> z \<in> set zs \<and> length ch \<le> r (varName z)"
proof (induction ch arbitrary: z rule: rev_induct)
  case Nil
  then show ?case by simp
next
  case (snoc y ch)
  from snoc.prems have c: "dependency_chain zs (ch @ [y])" and z: "z \<in> set zs"
    and l: "varName y \<in> set (dependencies z)" "varName y \<noteq> varName z"
    by (simp_all add: dependency_chain_snoc_iff)
  from snoc.IH [OF c] have y: "y \<in> set zs" "length ch \<le> r (varName y)" by simp_all
  from rank [OF y(1) z l] y(2) z show ?case by simp
qed

lemma resolve_rounds_ex:
  "\<exists>N. resolve tr zs m = (int N, state_after tr zs N)
      \<and> (\<forall>i<N. Map_size (statements (state_after tr zs i)) \<noteq> length zs \<and> int i < m)
      \<and> (Map_size (statements (state_after tr zs N)) = length zs \<or> m \<le> int N)"
  by (rule resolve_rounds [of tr zs m]) blast

subsection \<open>Acyclic dependencies\<close>

text \<open>
  Claim C7, as amended. Let the names of the candidates be unique, let the dependencies form a graph over
  the candidates (every dependency other than the own name is the name of a
  candidate), and let no dependency chain have more than \<open>L\<close> candidates: the graph is then
  acyclic, and \<open>L\<close> can be the length of its longest chain. If \<^verbatim>\<open>maxRun\<close> is at least \<open>L\<close>,
  the loop runs at most \<open>L\<close> rounds, every candidate is declared at its end, \<^verbatim>\<open>errors\<close> is
  empty, and the keys of \<^verbatim>\<open>statements\<close> are in topological order: every dependency of a
  declared candidate, its own name apart, is a key at a strictly smaller position of the
  insertion order.
\<close>

theorem acyclic_resolves_in_topological_order:
  fixes env :: "'node collaborators"
  assumes "distinct (map varName (zodSchemas env props))"
    and "dependencies_closed (zodSchemas env props)"
    and "\<forall>ch. dependency_chain (zodSchemas env props) ch \<longrightarrow> length ch \<le> L"
    and "int L \<le> maxRun_of props"
  shows "rounds_run env props \<le> int L
    \<and> (\<forall>z\<in>set (zodSchemas env props). Map_has (statements (resolved env props)) (varName z))
    \<and> errors (generate env props) = []
    \<and> (let keys = Map_keys (statements (resolved env props)) in
         \<forall>i<length keys. \<forall>z\<in>set (zodSchemas env props). varName z = keys ! i \<longrightarrow>
           (\<forall>dep\<in>set (dependencies z). dep \<noteq> varName z \<longrightarrow> (\<exists>j<i. keys ! j = dep)))"
proof -
  let ?zs = "zodSchemas env props" and ?tr = "transformRecursiveSchema env"
  from resolve_rounds_ex [of ?tr ?zs "maxRun_of props"]
  obtain N where N: "resolve ?tr ?zs (maxRun_of props) = (int N, state_after ?tr ?zs N)"
    and run: "\<forall>i<N. Map_size (statements (state_after ?tr ?zs i)) \<noteq> length ?zs
                \<and> int i < maxRun_of props"
    and stop: "Map_size (statements (state_after ?tr ?zs N)) = length ?zs \<or> maxRun_of props \<le> int N"
    by (elim exE conjE)
  from N have r: "resolved env props = state_after ?tr ?zs N" and n: "rounds_run env props = int N"
    by (simp_all add: resolved_def rounds_run_def)
  note inv = keys_state_after_inv [of ?tr ?zs]
  have allL: "Map_has (statements (state_after ?tr ?zs L)) (varName z)" if z: "z \<in> set ?zs" for z
  proof (rule chain_depth_resolved [OF assms(2) z])
    show "\<forall>ch. dependency_chain ?zs (ch @ [z]) \<longrightarrow> length ch < L"
    proof (intro allI impI)
      fix ch assume "dependency_chain ?zs (ch @ [z])"
      with assms(3) have "length (ch @ [z]) \<le> L" by blast
      then show "length ch < L" by simp
    qed
  qed
  have NL: "N \<le> L"
  proof (rule ccontr)
    assume "\<not> N \<le> L"
    then have "L < N" by simp
    with run have "Map_size (statements (state_after ?tr ?zs L)) \<noteq> length ?zs" by simp
    moreover have "Map_size (statements (state_after ?tr ?zs L)) = length ?zs"
      using inv [of L] assms(1) allL by (intro all_declared_full_size) simp_all
    ultimately show False by simp
  qed
  have all: "Map_has (statements (resolved env props)) (varName z)" if z: "z \<in> set ?zs" for z
  proof (cases "Map_size (statements (state_after ?tr ?zs N)) = length ?zs")
    case True
    with inv [of N] z show ?thesis unfolding r by (intro full_size_all_declared [where zs = ?zs]) simp_all
  next
    case False
    with stop assms(4) NL have "N = L" by simp
    with allL [OF z] show ?thesis unfolding r by simp
  qed
  have e: "errors (generate env props) = []"
    using all by (simp add: errors_generate errors_of_eq)
  have "topologically_valid ?zs (map fst (statements (resolved env props)))"
    unfolding r using assms(1) by (rule topologically_valid_state_after)
  then have t: "let keys = Map_keys (statements (resolved env props)) in
         \<forall>i<length keys. \<forall>z\<in>set ?zs. varName z = keys ! i \<longrightarrow>
           (\<forall>dep\<in>set (dependencies z). dep \<noteq> varName z \<longrightarrow> (\<exists>j<i. keys ! j = dep))"
    by (simp add: topologically_valid_def Map_keys_def Let_def)
  have c1: "rounds_run env props \<le> int L" using NL n by simp
  from all have c2: "\<forall>z\<in>set ?zs. Map_has (statements (resolved env props)) (varName z)" by blast
  from c1 c2 e t show ?thesis by (intro conjI)
qed

theorem acyclic_resolves_in_topological_order_witness:
  "rounds_run (example_collaborators
       [TypeAlias ''C'' [''B''], TypeAlias ''A'' [], TypeAlias ''B'' [''A'']]) (example_props None) \<le> 3
   \<and> errors (generate (example_collaborators
       [TypeAlias ''C'' [''B''], TypeAlias ''A'' [], TypeAlias ''B'' [''A'']]) (example_props None)) = []
   \<and> Map_keys (statements (resolved (example_collaborators
       [TypeAlias ''C'' [''B''], TypeAlias ''A'' [], TypeAlias ''B'' [''A'']]) (example_props None)))
     = [''ASchema'', ''BSchema'', ''CSchema'']"
proof -
  let ?E = "example_collaborators [TypeAlias ''C'' [''B''], TypeAlias ''A'' [], TypeAlias ''B'' [''A'']]"
  let ?P = "example_props None"
  let ?c = "\<lparr>typeName = ''C'', varName = ''CSchema'', statement = Code ''const CSchema'',
             dependencies = [''BSchema'']\<rparr>"
  let ?a = "\<lparr>typeName = ''A'', varName = ''ASchema'', statement = Code ''const ASchema'',
             dependencies = []\<rparr>"
  let ?b = "\<lparr>typeName = ''B'', varName = ''BSchema'', statement = Code ''const BSchema'',
             dependencies = [''ASchema'']\<rparr>"
  let ?r = "\<lambda>v. if v = ''ASchema'' then 0 else if v = ''BSchema'' then 1 else (2::nat)"
  have zs: "zodSchemas ?E ?P = [?c, ?a, ?b]" by code_simp
  have h1: "distinct (map varName (zodSchemas ?E ?P))" by (simp add: zs)
  have h2: "dependencies_closed (zodSchemas ?E ?P)" by (simp add: zs dependencies_closed_def)
  have h3: "\<forall>ch. dependency_chain (zodSchemas ?E ?P) ch \<longrightarrow> length ch \<le> 3"
  proof (intro allI impI)
    fix ch assume ch: "dependency_chain (zodSchemas ?E ?P) ch"
    show "length ch \<le> 3"
    proof (cases ch rule: rev_cases)
      case Nil
      then show ?thesis by simp
    next
      case (snoc ch' z)
      have "z \<in> set (zodSchemas ?E ?P) \<and> length ch' \<le> ?r (varName z)"
      proof (rule dependency_chain_rank [where r = ?r])
        show "dependency_chain (zodSchemas ?E ?P) (ch' @ [z])" using ch snoc by simp
      next
        fix y z
        assume "y \<in> set (zodSchemas ?E ?P)" "z \<in> set (zodSchemas ?E ?P)"
          "varName y \<in> set (dependencies z)" "varName y \<noteq> varName z"
        then show "?r (varName y) < ?r (varName z)" unfolding zs by auto
      qed
      then have "length ch' \<le> 2" by (simp add: zs split: if_splits)
      with snoc show ?thesis by simp
    qed
  qed
  have h4: "int 3 \<le> maxRun_of ?P" by code_simp
  have k: "Map_keys (statements (resolved ?E ?P)) = [''ASchema'', ''BSchema'', ''CSchema'']"
    by code_simp
  note r = acyclic_resolves_in_topological_order [OF h1 h2 h3 h4]
  from r [THEN conjunct1] r [THEN conjunct2, THEN conjunct2, THEN conjunct1] k
  show ?thesis by simp
qed

text \<open>
  Claim C7 as stated fails, on acyclic inputs. First, with the naming that lower-cases the
  initial, let the source declare \<^verbatim>\<open>foo\<close>, \<^verbatim>\<open>u\<close>, \<^verbatim>\<open>t\<close> referring to \<^verbatim>\<open>foo\<close>, and \<^verbatim>\<open>Foo\<close>
  referring to \<^verbatim>\<open>u\<close>: \<^verbatim>\<open>foo\<close> and \<^verbatim>\<open>Foo\<close> are both named \<^verbatim>\<open>fooSchema\<close>, and no chain has more
  than two candidates. The first round stores \<^verbatim>\<open>foo\<close>, \<^verbatim>\<open>u\<close> and \<^verbatim>\<open>t\<close>, and then replaces
  the entry of \<^verbatim>\<open>fooSchema\<close>, at the first position, by the statement of \<^verbatim>\<open>Foo\<close>, which
  depends on \<^verbatim>\<open>uSchema\<close> at the second position; and since the map never has as many keys
  as there are candidates, the loop runs all 10 rounds. Second, with the default naming, let
  the source declare \<^verbatim>\<open>A\<close> and \<^verbatim>\<open>B\<close>, \<^verbatim>\<open>B\<close> referring to a type \<^verbatim>\<open>U\<close> that is not among
  the candidates: \<^verbatim>\<open>B\<close> is never resolved, and the loop runs all 10 rounds.
\<close>

theorem acyclic_counterexample:
  "zodSchemas
      (example_collaborators
         [TypeAlias ''foo'' [], TypeAlias ''u'' [], TypeAlias ''t'' [''foo''], TypeAlias ''Foo'' [''u'']])
      ((example_props None)\<lparr>getSchemaName := Some example_camel_name\<rparr>)
     = [\<lparr>typeName = ''foo'', varName = ''fooSchema'', statement = Code ''const fooSchema'',
         dependencies = []\<rparr>,
        \<lparr>typeName = ''u'', varName = ''uSchema'', statement = Code ''const uSchema'',
         dependencies = []\<rparr>,
        \<lparr>typeName = ''t'', varName = ''tSchema'', statement = Code ''const tSchema'',
         dependencies = [''fooSchema'']\<rparr>,
        \<lparr>typeName = ''Foo'', varName = ''fooSchema'', statement = Code ''const fooSchema'',
         dependencies = [''uSchema'']\<rparr>]
   \<and> statements (resolved
        (example_collaborators
           [TypeAlias ''foo'' [], TypeAlias ''u'' [], TypeAlias ''t'' [''foo''], TypeAlias ''Foo'' [''u'']])
        ((example_props None)\<lparr>getSchemaName := Some example_camel_name\<rparr>))
     = [(''fooSchema'', \<lparr>entry_typeName = ''Foo'', entry_value = Code ''const fooSchema''\<rparr>),
        (''uSchema'', \<lparr>entry_typeName = ''u'', entry_value = Code ''const uSchema''\<rparr>),
        (''tSchema'', \<lparr>entry_typeName = ''t'', entry_value = Code ''const tSchema''\<rparr>)]
   \<and> rounds_run
        (example_collaborators
           [TypeAlias ''foo'' [], TypeAlias ''u'' [], TypeAlias ''t'' [''foo''], TypeAlias ''Foo'' [''u'']])
        ((example_props None)\<lparr>getSchemaName := Some example_camel_name\<rparr>) = 10
   \<and> zodSchemas (example_collaborators [TypeAlias ''A'' [], TypeAlias ''B'' [''U'']]) (example_props None)
     = [\<lparr>typeName = ''A'', varName = ''ASchema'', statement = Code ''const ASchema'',
         dependencies = []\<rparr>,
        \<lparr>typeName = ''B'', varName = ''BSchema'', statement = Code ''const BSchema'',
         dependencies = [''USchema'']\<rparr>]
   \<and> Map_keys (statements (resolved
        (example_collaborators [TypeAlias ''A'' [], TypeAlias ''B'' [''U'']]) (example_props None)))
     = [''ASchema'']
   \<and> rounds_run (example_collaborators [TypeAlias ''A'' [], TypeAlias ''B'' [''U'']])
        (example_props None) = 10
   \<and> errors (generate (example_collaborators [TypeAlias ''A'' [], TypeAlias ''B'' [''U'']])
        (example_props None))
     = [''Some schemas can't be generated due to circular dependencies:\<newline>BSchema'']"
  by code_simp

subsection \<open>Two candidates with the same name\<close>

lemma varName_zodSchemas:
  "z \<in> set (zodSchemas env props) \<Longrightarrow> varName z = getSchemaName_of env props (typeName z)"
  by (auto simp: zodSchemas_def Let_def)

lemma distinct_keys_one_entry:
  "distinct (map fst m) \<Longrightarrow> length (filter (\<lambda>p. fst p = k) m) \<le> 1"
proof (induction m)
  case Nil
  then show ?case by simp
next
  case (Cons p m)
  show ?case
  proof (cases "fst p = k")
    case True
    with Cons.prems have "k \<notin> fst ` set m" by auto
    then have "filter (\<lambda>p. fst p = k) m = []" by (auto simp: filter_empty_conv)
    with True show ?thesis by simp
  next
    case False
    with Cons show ?thesis by simp
  qed
qed

lemma filter_values_le:
  "(\<And>p. p \<in> set m \<Longrightarrow> P (snd p) \<Longrightarrow> fst p = k)
     \<Longrightarrow> length (filter P (map snd m)) \<le> length (filter (\<lambda>p. fst p = k) m)"
  by (induction m) auto

lemma two_in_filter:
  assumes "a \<in> set xs" "b \<in> set xs" "a \<noteq> b" "P a" "P b"
  shows "2 \<le> length (filter P xs)"
proof -
  have "{a, b} \<subseteq> set (filter P xs)" using assms by simp
  then have "card {a, b} \<le> card (set (filter P xs))" by (intro card_mono) simp_all
  also have "\<dots> \<le> length (filter P xs)" by (rule card_length)
  finally show ?thesis using assms(3) by simp
qed

lemma entries_from_state_after: "entries_from tr zs (state_after tr zs k)"
proof (rule state_after_invariant [where P = "entries_from tr zs" and zs = zs])
  show "entries_from tr zs initialState" by (simp add: entries_from_def initialState_def)
qed (rule entries_from_visit)

lemma colliding_state:
  fixes env :: "'node collaborators"
  assumes "x \<in> set (zodSchemas env props)" "y \<in> set (zodSchemas env props)"
    "varName x = varName y"
    "distinct (map fst (statements s))"
    "entries_from (transformRecursiveSchema env) (zodSchemas env props) s"
  shows "length (filter (\<lambda>p. fst p = varName x) (statements s)) \<le> 1"
    and "length (filter (\<lambda>e. entry_typeName e = typeName x \<or> entry_typeName e = typeName y)
                   (Map_values (statements s))) \<le> 1"
proof -
  show one: "length (filter (\<lambda>p. fst p = varName x) (statements s)) \<le> 1"
    using assms(4) by (rule distinct_keys_one_entry)
  have "length (filter (\<lambda>e. entry_typeName e = typeName x \<or> entry_typeName e = typeName y)
                   (map snd (statements s)))
        \<le> length (filter (\<lambda>p. fst p = varName x) (statements s))"
  proof (rule filter_values_le)
    fix p assume p: "p \<in> set (statements s)"
      and t: "entry_typeName (snd p) = typeName x \<or> entry_typeName (snd p) = typeName y"
    from p have "(fst p, snd p) \<in> set (statements s)" by simp
    with assms(5) obtain z where z: "z \<in> set (zodSchemas env props)" "fst p = varName z"
      "snd p = stored_entry (transformRecursiveSchema env) z"
      unfolding entries_from_def by blast
    from z(3) have "entry_typeName (snd p) = typeName z" by (simp add: stored_entry_def)
    with t have "typeName z = typeName x \<or> typeName z = typeName y" by simp
    then have "getSchemaName_of env props (typeName z) = varName x"
      using varName_zodSchemas [OF assms(1)] varName_zodSchemas [OF assms(2)] assms(3) by auto
    with z(1,2) show "fst p = varName x" by (simp add: varName_zodSchemas)
  qed
  with one show "length (filter (\<lambda>e. entry_typeName e = typeName x \<or> entry_typeName e = typeName y)
                   (Map_values (statements s))) \<le> 1"
    by (simp add: Map_values_def)
qed

lemma entries_from_foldl_visit:
  assumes "entries_from tr zs s" "set ps \<subseteq> set zs"
  shows "entries_from tr zs (foldl (visit tr) s ps)"
proof (rule foldl_visit_invariant [where P = "entries_from tr zs" and zs = zs])
  show "entries_from tr zs s" by fact
  show "set ps \<subseteq> set zs" by fact
qed (rule entries_from_visit)

text \<open>
  Claim C10, as amended. Let \<^verbatim>\<open>getSchemaName\<close> give two candidates with distinct type names
  the same \<^verbatim>\<open>varName\<close>. At every moment of the loop (after any number of rounds and any
  number of visits of the next round) and at its end, \<^verbatim>\<open>statements\<close> has at most one entry
  under that name, and at most one of its values, which are what the two output texts are
  built from, carries the type name of one of the two candidates: the entries of the two
  candidates are never both among the values. As soon as the name is a key of
  \<^verbatim>\<open>statements\<close>, neither candidate is among the unresolved candidates and the name is not
  among the names that the error message lists: the candidate whose entry is not in the map
  is dropped without a report.
\<close>

theorem colliding_names_one_dropped:
  fixes env :: "'node collaborators"
  assumes "x \<in> set (zodSchemas env props)" and "y \<in> set (zodSchemas env props)"
    and "typeName x \<noteq> typeName y" and "varName x = varName y"
  shows "(\<forall>k ps qs.
            pending (zodSchemas env props)
              (state_after (transformRecursiveSchema env) (zodSchemas env props) k) = ps @ qs
            \<longrightarrow> length (filter (\<lambda>p. fst p = varName x)
                  (statements (foldl (visit (transformRecursiveSchema env))
                     (state_after (transformRecursiveSchema env) (zodSchemas env props) k) ps))) \<le> 1
              \<and> length (filter (\<lambda>e. entry_typeName e = typeName x \<or> entry_typeName e = typeName y)
                  (Map_values (statements (foldl (visit (transformRecursiveSchema env))
                     (state_after (transformRecursiveSchema env) (zodSchemas env props) k) ps)))) \<le> 1)
    \<and> length (filter (\<lambda>p. fst p = varName x) (statements (resolved env props))) \<le> 1
    \<and> length (filter (\<lambda>e. entry_typeName e = typeName x \<or> entry_typeName e = typeName y)
          (Map_values (statements (resolved env props)))) \<le> 1
    \<and> \<not> (stored_entry (transformRecursiveSchema env) x \<in> set (Map_values (statements (resolved env props)))
          \<and> stored_entry (transformRecursiveSchema env) y \<in> set (Map_values (statements (resolved env props))))
    \<and> (Map_has (statements (resolved env props)) (varName x) \<longrightarrow>
          x \<notin> set (missingStatements (zodSchemas env props) (resolved env props))
          \<and> y \<notin> set (missingStatements (zodSchemas env props) (resolved env props))
          \<and> varName x \<notin> set (map varName (missingStatements (zodSchemas env props) (resolved env props)))
          \<and> errors (generate env props)
              = (if missingStatements (zodSchemas env props) (resolved env props) = [] then []
                 else [error_message (missingStatements (zodSchemas env props) (resolved env props))]))"
proof -
  let ?zs = "zodSchemas env props" and ?tr = "transformRecursiveSchema env"
  have a: "length (filter (\<lambda>p. fst p = varName x)
                  (statements (foldl (visit ?tr) (state_after ?tr ?zs k) ps))) \<le> 1
      \<and> length (filter (\<lambda>e. entry_typeName e = typeName x \<or> entry_typeName e = typeName y)
                  (Map_values (statements (foldl (visit ?tr) (state_after ?tr ?zs k) ps)))) \<le> 1"
    if "pending ?zs (state_after ?tr ?zs k) = ps @ qs" for k ps qs
  proof -
    have "set ps \<subseteq> set (pending ?zs (state_after ?tr ?zs k))" unfolding that by simp
    then have sub: "set ps \<subseteq> set ?zs" by (auto simp: pending_def)
    have e: "entries_from ?tr ?zs (foldl (visit ?tr) (state_after ?tr ?zs k) ps)"
      using entries_from_state_after sub by (rule entries_from_foldl_visit)
    have d: "distinct (map fst (statements (foldl (visit ?tr) (state_after ?tr ?zs k) ps)))"
      using keys_foldl_visit_inv [OF sub, of "state_after ?tr ?zs k" ?tr]
        keys_state_after_inv [of ?tr ?zs k] by simp
    from colliding_state [OF assms(1,2,4) d e] show ?thesis by simp
  qed
  have a0: "length (filter (\<lambda>p. fst p = varName x) (statements (state_after ?tr ?zs k))) \<le> 1
      \<and> length (filter (\<lambda>e. entry_typeName e = typeName x \<or> entry_typeName e = typeName y)
                  (Map_values (statements (state_after ?tr ?zs k)))) \<le> 1" for k
    using a [of k "[]" "pending ?zs (state_after ?tr ?zs k)"] by simp
  obtain N where r: "resolved env props = state_after ?tr ?zs N"
    using resolved_is_state_after by blast
  have b: "length (filter (\<lambda>p. fst p = varName x) (statements (resolved env props))) \<le> 1"
    and c: "length (filter (\<lambda>e. entry_typeName e = typeName x \<or> entry_typeName e = typeName y)
          (Map_values (statements (resolved env props)))) \<le> 1"
    unfolding r using a0 [of N] by simp_all
  have c': "\<not> (stored_entry ?tr x \<in> set (Map_values (statements (resolved env props)))
          \<and> stored_entry ?tr y \<in> set (Map_values (statements (resolved env props))))"
  proof
    assume both: "stored_entry ?tr x \<in> set (Map_values (statements (resolved env props)))
          \<and> stored_entry ?tr y \<in> set (Map_values (statements (resolved env props)))"
    have tx: "entry_typeName (stored_entry ?tr x) = typeName x"
      and ty: "entry_typeName (stored_entry ?tr y) = typeName y"
      by (simp_all add: stored_entry_def)
    with assms(3) have ne: "stored_entry ?tr x \<noteq> stored_entry ?tr y" by auto
    have "2 \<le> length (filter (\<lambda>e. entry_typeName e = typeName x \<or> entry_typeName e = typeName y)
          (Map_values (statements (resolved env props))))"
      using both ne tx ty by (intro two_in_filter [of "stored_entry ?tr x" _ "stored_entry ?tr y"]) simp_all
    with c show False by simp
  qed
  have d: "Map_has (statements (resolved env props)) (varName x) \<longrightarrow>
          x \<notin> set (missingStatements ?zs (resolved env props))
          \<and> y \<notin> set (missingStatements ?zs (resolved env props))
          \<and> varName x \<notin> set (map varName (missingStatements ?zs (resolved env props)))
          \<and> errors (generate env props)
              = (if missingStatements ?zs (resolved env props) = [] then []
                 else [error_message (missingStatements ?zs (resolved env props))])"
    using assms(4) by (auto simp: missingStatements_iff errors_generate errors_of_def Let_def)
  from a have a': "\<forall>k ps qs. pending ?zs (state_after ?tr ?zs k) = ps @ qs
      \<longrightarrow> length (filter (\<lambda>p. fst p = varName x)
                  (statements (foldl (visit ?tr) (state_after ?tr ?zs k) ps))) \<le> 1
      \<and> length (filter (\<lambda>e. entry_typeName e = typeName x \<or> entry_typeName e = typeName y)
                  (Map_values (statements (foldl (visit ?tr) (state_after ?tr ?zs k) ps)))) \<le> 1"
    by (intro allI impI)
  from a' b c c' d show ?thesis by (intro conjI)
qed

theorem colliding_names_one_dropped_witness:
  "statements (resolved (example_collaborators [TypeAlias ''A'' [], TypeAlias ''B'' []])
      ((example_props None)\<lparr>getSchemaName := Some example_same_name\<rparr>))
     = [(''schema'', \<lparr>entry_typeName = ''B'', entry_value = Code ''const schema''\<rparr>)]
   \<and> errors (generate (example_collaborators [TypeAlias ''A'' [], TypeAlias ''B'' []])
      ((example_props None)\<lparr>getSchemaName := Some example_same_name\<rparr>)) = []
   \<and> \<lparr>typeName = ''A'', varName = ''schema'', statement = Code ''const schema'', dependencies = []\<rparr>
      \<notin> set (missingStatements
          (zodSchemas (example_collaborators [TypeAlias ''A'' [], TypeAlias ''B'' []])
             ((example_props None)\<lparr>getSchemaName := Some example_same_name\<rparr>))
          (resolved (example_collaborators [TypeAlias ''A'' [], TypeAlias ''B'' []])
             ((example_props None)\<lparr>getSchemaName := Some example_same_name\<rparr>)))"
proof -
  let ?E = "example_collaborators [TypeAlias ''A'' [], TypeAlias ''B'' []]"
  let ?P = "(example_props None)\<lparr>getSchemaName := Some example_same_name\<rparr>"
  let ?x = "\<lparr>typeName = ''A'', varName = ''schema'', statement = Code ''const schema'',
             dependencies = []\<rparr>"
  let ?y = "\<lparr>typeName = ''B'', varName = ''schema'', statement = Code ''const schema'',
             dependencies = []\<rparr>"
  have zs: "zodSchemas ?E ?P = [?x, ?y]" by code_simp
  have h: "?x \<in> set (zodSchemas ?E ?P)" "?y \<in> set (zodSchemas ?E ?P)"
    "typeName ?x \<noteq> typeName ?y" "varName ?x = varName ?y"
    by (simp_all add: zs)
  have s: "statements (resolved ?E ?P)
      = [(''schema'', \<lparr>entry_typeName = ''B'', entry_value = Code ''const schema''\<rparr>)]"
    by code_simp
  then have has: "Map_has (statements (resolved ?E ?P)) (varName ?x)" by (simp add: Map_has_def)
  have e: "errors (generate ?E ?P) = []" by code_simp
  note r = colliding_names_one_dropped [OF h]
  note dropped = r [THEN conjunct2, THEN conjunct2, THEN conjunct2, THEN conjunct2, rule_format,
                    OF has, THEN conjunct1]
  from s e dropped show ?thesis by (intro conjI)
qed

text \<open>
  Claim C10 as stated fails. Let \<^verbatim>\<open>getSchemaName\<close> name every schema \<^verbatim>\<open>schema\<close>, and let the
  source declare \<^verbatim>\<open>A\<close>, which refers to itself, and then \<^verbatim>\<open>B\<close>, which refers to nothing. In
  the first round the visit of \<^verbatim>\<open>A\<close> stores the rewritten statement of \<^verbatim>\<open>A\<close> under
  \<^verbatim>\<open>schema\<close> and adds \<^verbatim>\<open>A\<close> to \<^verbatim>\<open>typeImports\<close>; the visit of \<^verbatim>\<open>B\<close>, in the same pass, then
  replaces that entry by the statement of \<^verbatim>\<open>B\<close>. Both candidates have been stored, one
  after the other, and the schemas file imports the type \<^verbatim>\<open>A\<close> of the candidate whose
  statement it does not contain.
\<close>

theorem colliding_names_counterexample:
  \<open>zodSchemas (example_collaborators [TypeAlias ''A'' [''A''], TypeAlias ''B'' []])
      ((example_props None)\<lparr>getSchemaName := Some example_same_name\<rparr>)
     = [\<lparr>typeName = ''A'', varName = ''schema'', statement = Code ''const schema'',
         dependencies = [''schema'']\<rparr>,
        \<lparr>typeName = ''B'', varName = ''schema'', statement = Code ''const schema'',
         dependencies = []\<rparr>]
   \<and> visit (transformRecursiveSchema (example_collaborators [TypeAlias ''A'' [''A''], TypeAlias ''B'' []]))
        initialState
        \<lparr>typeName = ''A'', varName = ''schema'', statement = Code ''const schema'',
         dependencies = [''schema'']\<rparr>
     = \<lparr>statements =
          [(''schema'', \<lparr>entry_typeName = ''A'', entry_value = Code ''const schema: lazy A''\<rparr>)],
        typeImports = [''A'']\<rparr>
   \<and> visit (transformRecursiveSchema (example_collaborators [TypeAlias ''A'' [''A''], TypeAlias ''B'' []]))
        \<lparr>statements =
          [(''schema'', \<lparr>entry_typeName = ''A'', entry_value = Code ''const schema: lazy A''\<rparr>)],
         typeImports = [''A'']\<rparr>
        \<lparr>typeName = ''B'', varName = ''schema'', statement = Code ''const schema'',
         dependencies = []\<rparr>
     = \<lparr>statements = [(''schema'', \<lparr>entry_typeName = ''B'', entry_value = Code ''const schema''\<rparr>)],
        typeImports = [''A'']\<rparr>
   \<and> resolved (example_collaborators [TypeAlias ''A'' [''A''], TypeAlias ''B'' []])
        ((example_props None)\<lparr>getSchemaName := Some example_same_name\<rparr>)
     = \<lparr>statements = [(''schema'', \<lparr>entry_typeName = ''B'', entry_value = Code ''const schema''\<rparr>)],
        typeImports = [''A'']\<rparr>
   \<and> getZodSchemasFile (generate (example_collaborators [TypeAlias ''A'' [''A''], TypeAlias ''B'' []])
        ((example_props None)\<lparr>getSchemaName := Some example_same_name\<rparr>)) ''./types''
     = ''// Generated by ts-to-zod\<newline>import { z } from "zod";\<newline>import { A } from "./types";\<newline>\<newline>const schema\<newline>''
   \<and> errors (generate (example_collaborators [TypeAlias ''A'' [''A''], TypeAlias ''B'' []])
        ((example_props None)\<lparr>getSchemaName := Some example_same_name\<rparr>)) = []\<close>
  by code_simp

subsection \<open>What one round resolves\<close>

lemma has_foldl_visit_origin:
  "Map_has (statements (foldl (visit tr) s ps)) k
     \<Longrightarrow> Map_has (statements s) k \<or> k \<in> varName ` set ps"
proof (induction ps arbitrary: s)
  case Nil
  then show ?case by simp
next
  case (Cons p ps)
  from Cons.prems have "Map_has (statements (foldl (visit tr) (visit tr s p) ps)) k" by simp
  then have "Map_has (statements (visit tr s p)) k \<or> k \<in> varName ` set ps" by (rule Cons.IH)
  then show ?case by (auto simp: has_visit)
qed

lemma pending_not_has: "z \<in> set (pending zs s) \<Longrightarrow> \<not> Map_has (statements s) (varName z)"
  by (simp add: pending_def)

lemma round_unlocks:
  assumes p: "pending zs s = ps @ d # qs @ c # rs"
    and d: "\<forall>dep\<in>set (dependencies d). dep \<noteq> varName d \<longrightarrow> Map_has (statements s) dep"
    and cd: "varName d \<in> set (dependencies c)" "varName d \<noteq> varName c"
    and c: "\<forall>dep\<in>set (dependencies c). dep \<noteq> varName c \<longrightarrow> dep = varName d \<or> Map_has (statements s) dep"
  shows "set (missingDependencies s c) = {varName d}"
    and "Map_has (statements (resolve_round tr zs s)) (varName d)"
    and "Map_has (statements (resolve_round tr zs s)) (varName c)"
proof -
  have "d \<in> set (pending zs s)" unfolding p by simp
  then have nd: "\<not> Map_has (statements s) (varName d)" by (rule pending_not_has)
  show "set (missingDependencies s c) = {varName d}"
    using cd c nd by (auto simp: missingDependencies_def)
  let ?live = "foldl (visit tr) s (ps @ d # qs)"
  have ed: "eligible s d" using d by (simp add: eligible_def)
  have live: "Map_has (statements ?live) (varName d)"
    by (rule foldl_visit_resolves [OF _ ed]) simp
  have r: "resolve_round tr zs s = foldl (visit tr) ?live (c # rs)"
    by (simp add: resolve_round_def p)
  show "Map_has (statements (resolve_round tr zs s)) (varName d)"
    unfolding r using live by (rule has_foldl_visit_mono)
  have "eligible ?live c"
    unfolding eligible_def
  proof (intro ballI impI)
    fix dep assume "dep \<in> set (dependencies c)" "dep \<noteq> varName c"
    with c have "dep = varName d \<or> Map_has (statements s) dep" by blast
    then show "Map_has (statements ?live) dep"
    proof
      assume "dep = varName d"
      with live show ?thesis by simp
    next
      assume "Map_has (statements s) dep"
      then show ?thesis by (rule has_foldl_visit_mono)
    qed
  qed
  then show "Map_has (statements (resolve_round tr zs s)) (varName c)"
    unfolding r by (intro foldl_visit_resolves) simp_all
qed

lemma round_waits:
  assumes p: "pending zs s = ps @ c # qs @ d # rs"
    and dist: "distinct (map varName (pending zs s))"
    and cd: "varName d \<in> set (dependencies c)" "varName d \<noteq> varName c"
  shows "\<not> Map_has (statements (resolve_round tr zs s)) (varName c)"
proof
  assume has: "Map_has (statements (resolve_round tr zs s)) (varName c)"
  let ?live = "foldl (visit tr) s ps"
  have "c \<in> set (pending zs s)" "d \<in> set (pending zs s)" unfolding p by simp_all
  then have nc: "\<not> Map_has (statements s) (varName c)" and nd: "\<not> Map_has (statements s) (varName d)"
    by (simp_all add: pending_not_has)
  from dist have names: "varName c \<notin> varName ` set ps" "varName d \<notin> varName ` set ps"
    "varName c \<notin> varName ` set (qs @ d # rs)"
    unfolding p by auto
  have lc: "\<not> Map_has (statements ?live) (varName c)"
    using has_foldl_visit_origin [of tr s ps "varName c"] nc names(1) by blast
  have ld: "\<not> Map_has (statements ?live) (varName d)"
    using has_foldl_visit_origin [of tr s ps "varName d"] nd names(2) by blast
  have "\<not> eligible ?live c"
  proof
    assume "eligible ?live c"
    from this cd have "Map_has (statements ?live) (varName d)" by (rule eligibleD)
    with ld show False by simp
  qed
  then have v: "visit tr ?live c = ?live" by (simp add: visit_eq)
  have "resolve_round tr zs s = foldl (visit tr) (visit tr ?live c) (qs @ d # rs)"
    by (simp add: resolve_round_def p)
  with v have "resolve_round tr zs s = foldl (visit tr) ?live (qs @ d # rs)" by simp
  with has have "Map_has (statements (foldl (visit tr) ?live (qs @ d # rs))) (varName c)" by simp
  then have "Map_has (statements ?live) (varName c) \<or> varName c \<in> varName ` set (qs @ d # rs)"
    by (rule has_foldl_visit_origin)
  with lc names(3) show False by blast
qed

lemma snoc_eq_split:
  "(ps @ [x] = ps1 @ d # ps2) =
     ((ps2 = [] \<and> ps1 = ps \<and> d = x) \<or> (\<exists>qs. ps2 = qs @ [x] \<and> ps = ps1 @ d # qs))"
proof (cases ps2 rule: rev_cases)
  case Nil
  then show ?thesis by auto
next
  case (snoc qs y)
  have "(ps @ [x] = (ps1 @ d # qs) @ [y]) = (ps = ps1 @ d # qs \<and> x = y)"
    by (rule append1_eq_conv)
  with snoc show ?thesis by auto
qed

text \<open>
  The keys of the map in the middle of a pass: the keys at the start, and the names of the
  candidates visited so far that were eligible when they were visited.
\<close>

lemma has_foldl_visit_iff:
  "Map_has (statements (foldl (visit tr) s ps)) k =
     (Map_has (statements s) k
      \<or> (\<exists>ps1 d ps2. ps = ps1 @ d # ps2 \<and> varName d = k \<and> eligible (foldl (visit tr) s ps1) d))"
proof (induction ps rule: rev_induct)
  case Nil
  show ?case by simp
next
  case (snoc x ps)
  let ?Q = "\<lambda>qs. \<exists>ps1 d ps2. qs = ps1 @ d # ps2 \<and> varName d = k \<and> eligible (foldl (visit tr) s ps1) d"
  have split: "?Q (ps @ [x]) = (?Q ps \<or> (varName x = k \<and> eligible (foldl (visit tr) s ps) x))"
  proof
    assume "?Q (ps @ [x])"
    then obtain ps1 d ps2 where h: "ps @ [x] = ps1 @ d # ps2" "varName d = k"
      "eligible (foldl (visit tr) s ps1) d" by blast
    from h(1) have "(ps2 = [] \<and> ps1 = ps \<and> d = x) \<or> (\<exists>qs. ps2 = qs @ [x] \<and> ps = ps1 @ d # qs)"
      by (simp only: snoc_eq_split)
    then show "?Q ps \<or> (varName x = k \<and> eligible (foldl (visit tr) s ps) x)"
    proof
      assume "ps2 = [] \<and> ps1 = ps \<and> d = x"
      with h(2,3) show ?thesis by simp
    next
      assume "\<exists>qs. ps2 = qs @ [x] \<and> ps = ps1 @ d # qs"
      then obtain qs where "ps = ps1 @ d # qs" by blast
      with h(2,3) have "?Q ps" by blast
      then show ?thesis ..
    qed
  next
    assume "?Q ps \<or> (varName x = k \<and> eligible (foldl (visit tr) s ps) x)"
    then show "?Q (ps @ [x])"
    proof
      assume "?Q ps"
      then obtain ps1 d ps2 where h: "ps = ps1 @ d # ps2" "varName d = k"
        "eligible (foldl (visit tr) s ps1) d" by blast
      from h(1) have "ps @ [x] = ps1 @ d # (ps2 @ [x])" by simp
      with h(2,3) show ?thesis by blast
    next
      assume "varName x = k \<and> eligible (foldl (visit tr) s ps) x"
      moreover have "ps @ [x] = ps @ x # []" by simp
      ultimately show ?thesis by blast
    qed
  qed
  have "Map_has (statements (foldl (visit tr) s (ps @ [x]))) k
        = (Map_has (statements (foldl (visit tr) s ps)) k
           \<or> (k = varName x \<and> eligible (foldl (visit tr) s ps) x))"
    by (simp add: has_visit)
  also have "\<dots> = ((Map_has (statements s) k \<or> ?Q ps)
           \<or> (varName x = k \<and> eligible (foldl (visit tr) s ps) x))"
    unfolding snoc.IH by (simp add: eq_commute [of k])
  also have "\<dots> = (Map_has (statements s) k \<or> ?Q (ps @ [x]))"
    unfolding split by (simp add: disj_assoc)
  finally show ?case .
qed

lemma pass_resolves:
  assumes p: "pending zs s = ps @ c # rs" and e: "eligible (foldl (visit tr) s ps) c"
  shows "Map_has (statements (resolve_round tr zs s)) (varName c)"
proof -
  have "resolve_round tr zs s = foldl (visit tr) (foldl (visit tr) s ps) (c # rs)"
    by (simp add: resolve_round_def p)
  moreover have "Map_has (statements (foldl (visit tr) (foldl (visit tr) s ps) (c # rs))) (varName c)"
    by (rule foldl_visit_resolves [OF _ e]) simp
  ultimately show ?thesis by simp
qed

lemma pass_waits:
  assumes p: "pending zs s = ps @ c # rs"
    and dist: "distinct (map varName (pending zs s))"
    and ne: "\<not> eligible (foldl (visit tr) s ps) c"
  shows "\<not> Map_has (statements (resolve_round tr zs s)) (varName c)"
proof
  assume has: "Map_has (statements (resolve_round tr zs s)) (varName c)"
  let ?live = "foldl (visit tr) s ps"
  have "c \<in> set (pending zs s)" unfolding p by simp
  then have nc: "\<not> Map_has (statements s) (varName c)" by (rule pending_not_has)
  from dist have names: "varName c \<notin> varName ` set ps" "varName c \<notin> varName ` set rs"
    unfolding p by auto
  have lc: "\<not> Map_has (statements ?live) (varName c)"
    using has_foldl_visit_origin [of tr s ps "varName c"] nc names(1) by blast
  from ne have v: "visit tr ?live c = ?live" by (simp add: visit_eq)
  have "resolve_round tr zs s = foldl (visit tr) (visit tr ?live c) rs"
    by (simp add: resolve_round_def p)
  with v have "resolve_round tr zs s = foldl (visit tr) ?live rs" by simp
  with has have "Map_has (statements (foldl (visit tr) ?live rs)) (varName c)" by simp
  then have "Map_has (statements ?live) (varName c) \<or> varName c \<in> varName ` set rs"
    by (rule has_foldl_visit_origin)
  with lc names(2) show False by blast
qed

text \<open>
  Claim C1, as amended. The callback tests a candidate against the map as it is when the
  candidate is visited. Let a round start in the state \<open>s\<close> and visit the pending candidates
  \<open>ps\<close> before the pending candidate \<open>c\<close>. The keys of the map at the visit of \<open>c\<close> are the
  keys at the start of the round and the names of the candidates of \<open>ps\<close> that were eligible
  when they were visited. If every dependency of \<open>c\<close> other than its own name is a key of
  the map at the visit of \<open>c\<close>, be it since before the round or since a visit earlier in
  the same pass, then \<open>c\<close> is declared when the round ends: a candidate resolved earlier in
  the pass unlocks \<open>c\<close> in the same round. When the names of the pending candidates are
  distinct this is the only way: \<open>c\<close> is declared when the round ends exactly if every other
  dependency of it is a key of the map at its visit, and has to wait for a later round
  otherwise.
\<close>

theorem same_round_unlocks:
  fixes s :: "'node resolverState"
  assumes "pending zs s = ps @ c # rs"
  shows "(\<forall>dep. Map_has (statements (foldl (visit tr) s ps)) dep =
            (Map_has (statements s) dep
             \<or> (\<exists>ps1 d ps2. ps = ps1 @ d # ps2 \<and> varName d = dep
                   \<and> eligible (foldl (visit tr) s ps1) d)))
    \<and> (eligible (foldl (visit tr) s ps) c
          \<longrightarrow> Map_has (statements (resolve_round tr zs s)) (varName c))
    \<and> (distinct (map varName (pending zs s))
          \<longrightarrow> Map_has (statements (resolve_round tr zs s)) (varName c)
              = eligible (foldl (visit tr) s ps) c)"
proof (intro conjI allI impI)
  fix dep
  show "Map_has (statements (foldl (visit tr) s ps)) dep =
            (Map_has (statements s) dep
             \<or> (\<exists>ps1 d ps2. ps = ps1 @ d # ps2 \<and> varName d = dep
                   \<and> eligible (foldl (visit tr) s ps1) d))"
    by (rule has_foldl_visit_iff)
next
  assume "eligible (foldl (visit tr) s ps) c"
  with assms show "Map_has (statements (resolve_round tr zs s)) (varName c)"
    by (rule pass_resolves)
next
  assume d: "distinct (map varName (pending zs s))"
  show "Map_has (statements (resolve_round tr zs s)) (varName c)
              = eligible (foldl (visit tr) s ps) c"
  proof
    assume h: "Map_has (statements (resolve_round tr zs s)) (varName c)"
    show "eligible (foldl (visit tr) s ps) c"
    proof (rule ccontr)
      assume "\<not> eligible (foldl (visit tr) s ps) c"
      with assms d have "\<not> Map_has (statements (resolve_round tr zs s)) (varName c)"
        by (rule pass_waits)
      with h show False by simp
    qed
  next
    assume "eligible (foldl (visit tr) s ps) c"
    with assms show "Map_has (statements (resolve_round tr zs s)) (varName c)"
      by (rule pass_resolves)
  qed
qed

theorem same_round_unlocks_witness:
  "\<not> eligible initialState
        \<lparr>typeName = ''B'', varName = ''BSchema'', statement = Code ''const BSchema'',
         dependencies = [''ASchema'']\<rparr>
   \<and> Map_has (statements (resolve_round
       (transformRecursiveSchema (example_collaborators []))
       [\<lparr>typeName = ''A'', varName = ''ASchema'', statement = Code ''const ASchema'', dependencies = []\<rparr>,
        \<lparr>typeName = ''B'', varName = ''BSchema'', statement = Code ''const BSchema'',
         dependencies = [''ASchema'']\<rparr>,
        \<lparr>typeName = ''C'', varName = ''CSchema'', statement = Code ''const CSchema'',
         dependencies = [''BSchema'']\<rparr>]
       initialState)) ''CSchema''
   \<and> \<not> Map_has (statements (resolve_round
       (transformRecursiveSchema (example_collaborators []))
       [\<lparr>typeName = ''D'', varName = ''DSchema'', statement = Code ''const DSchema'',
         dependencies = [''ESchema'']\<rparr>,
        \<lparr>typeName = ''C'', varName = ''CSchema'', statement = Code ''const CSchema'',
         dependencies = [''DSchema'']\<rparr>,
        \<lparr>typeName = ''E'', varName = ''ESchema'', statement = Code ''const ESchema'', dependencies = []\<rparr>]
       initialState)) ''CSchema''"
proof -
  let ?tr = "transformRecursiveSchema (example_collaborators [])"
  let ?a = "\<lparr>typeName = ''A'', varName = ''ASchema'', statement = Code ''const ASchema'',
             dependencies = []\<rparr>"
  let ?b = "\<lparr>typeName = ''B'', varName = ''BSchema'', statement = Code ''const BSchema'',
             dependencies = [''ASchema'']\<rparr>"
  let ?c = "\<lparr>typeName = ''C'', varName = ''CSchema'', statement = Code ''const CSchema'',
             dependencies = [''BSchema'']\<rparr>"
  let ?d = "\<lparr>typeName = ''D'', varName = ''DSchema'', statement = Code ''const DSchema'',
             dependencies = [''ESchema'']\<rparr>"
  let ?c' = "\<lparr>typeName = ''C'', varName = ''CSchema'', statement = Code ''const CSchema'',
             dependencies = [''DSchema'']\<rparr>"
  let ?e = "\<lparr>typeName = ''E'', varName = ''ESchema'', statement = Code ''const ESchema'',
             dependencies = []\<rparr>"
  let ?s = "initialState :: example_node resolverState"
  have b: "\<not> eligible ?s ?b" by code_simp
  have p1: "pending [?a, ?b, ?c] ?s = [?a, ?b] @ ?c # []"
    by (simp add: pending_def initialState_def Map_has_def)
  have e1: "eligible (foldl (visit ?tr) ?s [?a, ?b]) ?c" by code_simp
  have 1: "Map_has (statements (resolve_round ?tr [?a, ?b, ?c] ?s)) (varName ?c)"
    by (rule same_round_unlocks [OF p1, THEN conjunct2, THEN conjunct1, rule_format, OF e1])
  have p2: "pending [?d, ?c', ?e] ?s = [?d] @ ?c' # [?e]"
    by (simp add: pending_def initialState_def Map_has_def)
  have d2: "distinct (map varName (pending [?d, ?c', ?e] ?s))"
    by (simp add: p2)
  have e2: "\<not> eligible (foldl (visit ?tr) ?s [?d]) ?c'" by code_simp
  have "Map_has (statements (resolve_round ?tr [?d, ?c', ?e] ?s)) (varName ?c')
        = eligible (foldl (visit ?tr) ?s [?d]) ?c'"
    by (rule same_round_unlocks [OF p2, THEN conjunct2, THEN conjunct2, rule_format, OF d2])
  with e2 have 2: "\<not> Map_has (statements (resolve_round ?tr [?d, ?c', ?e] ?s)) (varName ?c')"
    by simp
  from b 1 2 show ?thesis by simp
qed

text \<open>
  Claim C1 as stated fails. With the candidates \<^verbatim>\<open>A\<close> and \<^verbatim>\<open>B\<close>, extracted in this order,
  \<^verbatim>\<open>B\<close> referring to \<^verbatim>\<open>A\<close>, and \<^verbatim>\<open>maxRun\<close> being 1: when the only round starts both are
  pending and the one missing dependency of \<^verbatim>\<open>B\<close> is \<^verbatim>\<open>ASchema\<close>; the round declares
  \<^verbatim>\<open>ASchema\<close> and, in the same pass, \<^verbatim>\<open>BSchema\<close>.
\<close>

theorem same_round_unlock_counterexample:
  "pending (zodSchemas (example_collaborators [TypeAlias ''A'' [], TypeAlias ''B'' [''A'']])
       (example_props (Some 1))) initialState
     = [\<lparr>typeName = ''A'', varName = ''ASchema'', statement = Code ''const ASchema'', dependencies = []\<rparr>,
        \<lparr>typeName = ''B'', varName = ''BSchema'', statement = Code ''const BSchema'',
         dependencies = [''ASchema'']\<rparr>]
   \<and> missingDependencies initialState
        \<lparr>typeName = ''B'', varName = ''BSchema'', statement = Code ''const BSchema'',
         dependencies = [''ASchema'']\<rparr> = [''ASchema'']
   \<and> Map_keys (statements (resolve_round
        (transformRecursiveSchema (example_collaborators [TypeAlias ''A'' [], TypeAlias ''B'' [''A'']]))
        (zodSchemas (example_collaborators [TypeAlias ''A'' [], TypeAlias ''B'' [''A'']])
           (example_props (Some 1)))
        initialState)) = [''ASchema'', ''BSchema'']
   \<and> rounds_run (example_collaborators [TypeAlias ''A'' [], TypeAlias ''B'' [''A'']])
        (example_props (Some 1)) = 1
   \<and> Map_keys (statements (resolved (example_collaborators [TypeAlias ''A'' [], TypeAlias ''B'' [''A'']])
        (example_props (Some 1)))) = [''ASchema'', ''BSchema'']
   \<and> errors (generate (example_collaborators [TypeAlias ''A'' [], TypeAlias ''B'' [''A'']])
        (example_props (Some 1))) = []"
  by code_simp

subsection \<open>A chain of three candidates and a single round\<close>

lemma resolve_single_round:
  assumes "zs \<noteq> []"
  shows "resolve tr zs 1 = (1, resolve_round tr zs initialState)"
proof -
  have "Map_size (statements (initialState :: 'a resolverState)) \<noteq> length zs \<and> (0::int) < 1"
    using assms by (simp add: initialState_def Map_size_def)
  then have "resolve_loop tr zs 1 0 initialState
      = resolve_loop tr zs 1 (0 + 1) (resolve_round tr zs initialState)"
    by (rule resolve_loop_step)
  also have "\<dots> = (0 + 1, resolve_round tr zs initialState)"
    by (rule resolve_loop_stop) simp
  finally show ?thesis by (simp add: resolve_def)
qed

lemma eligible_no_dependencies: "dependencies z = [] \<Longrightarrow> eligible s z"
  by (simp add: eligible_def)

lemma eligible_one_dependency:
  "set (dependencies z) = {v} \<Longrightarrow> v \<noteq> varName z \<Longrightarrow> eligible s z = Map_has (statements s) v"
  by (simp add: eligible_def)

lemma visit_plain:
  "varName z \<notin> set (dependencies z) \<Longrightarrow>
   visit tr s z =
     (if eligible s z
      then s\<lparr>statements := Map_set (statements s) (varName z)
               \<lparr>entry_typeName = typeName z, entry_value = statement z\<rparr>\<rparr>
      else s)"
  by (simp add: visit_eq stored_entry_def)

lemma chain_round:
  fixes a b c :: "'node zodSchema"
  assumes a: "dependencies a = []" and b: "set (dependencies b) = {varName a}"
    and c: "set (dependencies c) = {varName b}"
    and d: "distinct [varName a, varName b, varName c]"
  shows "map fst (statements (resolve_round tr [b, a, c] initialState)) = [varName a]"
    and "map fst (statements (resolve_round tr [b, c, a] initialState)) = [varName a]"
    and "map fst (statements (resolve_round tr [c, b, a] initialState)) = [varName a]"
    and "map fst (statements (resolve_round tr [a, c, b] initialState)) = [varName a, varName b]"
    and "map fst (statements (resolve_round tr [c, a, b] initialState)) = [varName a, varName b]"
    and "map fst (statements (resolve_round tr [a, b, c] initialState))
           = [varName a, varName b, varName c]"
proof -
  from d have ab: "varName a \<noteq> varName b" and ac: "varName a \<noteq> varName c"
    and bc: "varName b \<noteq> varName c" by simp_all
  note ne = ab ac bc ab [symmetric] ac [symmetric] bc [symmetric]
  have na: "varName a \<notin> set (dependencies a)" unfolding a by simp
  have nb: "varName b \<notin> set (dependencies b)" unfolding b by (simp add: ne)
  have nc: "varName c \<notin> set (dependencies c)" unfolding c by (simp add: ne)
  have ea: "eligible s a" for s :: "'node resolverState" using a by (rule eligible_no_dependencies)
  have eb: "eligible s b = Map_has (statements s) (varName a)" for s :: "'node resolverState"
    using b ab by (rule eligible_one_dependency)
  have ec: "eligible s c = Map_has (statements s) (varName b)" for s :: "'node resolverState"
    using c bc by (rule eligible_one_dependency)
  note defs = resolve_round_def pending_def initialState_def visit_plain [OF na] visit_plain [OF nb]
    visit_plain [OF nc] ea eb ec Map_has_def ne
  show "map fst (statements (resolve_round tr [b, a, c] initialState)) = [varName a]"
    by (simp add: defs)
  show "map fst (statements (resolve_round tr [b, c, a] initialState)) = [varName a]"
    by (simp add: defs)
  show "map fst (statements (resolve_round tr [c, b, a] initialState)) = [varName a]"
    by (simp add: defs)
  show "map fst (statements (resolve_round tr [a, c, b] initialState)) = [varName a, varName b]"
    by (simp add: defs)
  show "map fst (statements (resolve_round tr [c, a, b] initialState)) = [varName a, varName b]"
    by (simp add: defs)
  show "map fst (statements (resolve_round tr [a, b, c] initialState))
           = [varName a, varName b, varName c]"
    by (simp add: defs)
qed

lemma errors_of_keys:
  "errors_of zs s =
     (if filter (\<lambda>z. varName z \<notin> set (map fst (statements s))) zs = [] then []
      else [error_message (filter (\<lambda>z. varName z \<notin> set (map fst (statements s))) zs)])"
  by (simp add: errors_of_def Let_def missingStatements_def Map_has_def)

text \<open>
  Claim C2, as amended. Let \<open>a\<close>, \<open>b\<close>, \<open>c\<close> be a dependency chain: \<open>a\<close> has no dependency,
  \<open>b\<close> depends on \<open>a\<close> only and \<open>c\<close> on \<open>b\<close> only, the three names being distinct; and let
  \<^verbatim>\<open>maxRun\<close> be 1. What the single round resolves depends on the order of extraction. When
  \<open>b\<close> is extracted before \<open>a\<close> (the orders \<open>b a c\<close>, \<open>b c a\<close>, \<open>c b a\<close>), exactly \<open>a\<close> is
  resolved and the single error message lists the other two, in their order of extraction.
  In the orders \<open>a c b\<close> and \<open>c a b\<close>, \<open>a\<close> and \<open>b\<close> are resolved and the message lists \<open>c\<close>.
  In the order \<open>a b c\<close> all three are resolved and \<^verbatim>\<open>errors\<close> is empty.
\<close>

theorem chain_of_three_single_round:
  fixes env :: "'node collaborators" and a b c :: "'node zodSchema"
  assumes "maxRun_of props = 1"
    and "dependencies a = []"
    and "set (dependencies b) = {varName a}"
    and "set (dependencies c) = {varName b}"
    and "distinct [varName a, varName b, varName c]"
  shows "(zodSchemas env props = [b, a, c] \<longrightarrow>
            Map_keys (statements (resolved env props)) = [varName a]
            \<and> errors (generate env props) = [error_message [b, c]])
    \<and> (zodSchemas env props = [b, c, a] \<longrightarrow>
            Map_keys (statements (resolved env props)) = [varName a]
            \<and> errors (generate env props) = [error_message [b, c]])
    \<and> (zodSchemas env props = [c, b, a] \<longrightarrow>
            Map_keys (statements (resolved env props)) = [varName a]
            \<and> errors (generate env props) = [error_message [c, b]])
    \<and> (zodSchemas env props = [a, c, b] \<longrightarrow>
            Map_keys (statements (resolved env props)) = [varName a, varName b]
            \<and> errors (generate env props) = [error_message [c]])
    \<and> (zodSchemas env props = [c, a, b] \<longrightarrow>
            Map_keys (statements (resolved env props)) = [varName a, varName b]
            \<and> errors (generate env props) = [error_message [c]])
    \<and> (zodSchemas env props = [a, b, c] \<longrightarrow>
            Map_keys (statements (resolved env props)) = [varName a, varName b, varName c]
            \<and> errors (generate env props) = [])"
proof -
  let ?tr = "transformRecursiveSchema env"
  from assms(5) have ab: "varName a \<noteq> varName b" and ac: "varName a \<noteq> varName c"
    and bc: "varName b \<noteq> varName c" by simp_all
  note ne = ab ac bc ab [symmetric] ac [symmetric] bc [symmetric]
  note round = chain_round [OF assms(2-5), of ?tr]
  have r: "resolved env props = resolve_round ?tr zs initialState"
    if "zodSchemas env props = zs" "zs \<noteq> []" for zs
    using that assms(1) by (simp add: resolved_def resolve_single_round)
  have k: "Map_keys (statements (resolved env props)) = ks
           \<and> errors (generate env props)
              = (if filter (\<lambda>z. varName z \<notin> set ks) zs = [] then []
                 else [error_message (filter (\<lambda>z. varName z \<notin> set ks) zs)])"
    if "zodSchemas env props = zs" "zs \<noteq> []"
      "map fst (statements (resolve_round ?tr zs initialState)) = ks" for zs ks
    using that r [OF that(1,2)] by (simp add: Map_keys_def errors_generate errors_of_keys)
  show ?thesis
  proof (intro conjI impI)
    assume z: "zodSchemas env props = [b, a, c]"
    from k [OF z _ round(1)]
    show "Map_keys (statements (resolved env props)) = [varName a]"
      and "errors (generate env props) = [error_message [b, c]]"
      by (simp_all add: ne)
  next
    assume z: "zodSchemas env props = [b, c, a]"
    from k [OF z _ round(2)]
    show "Map_keys (statements (resolved env props)) = [varName a]"
      and "errors (generate env props) = [error_message [b, c]]"
      by (simp_all add: ne)
  next
    assume z: "zodSchemas env props = [c, b, a]"
    from k [OF z _ round(3)]
    show "Map_keys (statements (resolved env props)) = [varName a]"
      and "errors (generate env props) = [error_message [c, b]]"
      by (simp_all add: ne)
  next
    assume z: "zodSchemas env props = [a, c, b]"
    from k [OF z _ round(4)]
    show "Map_keys (statements (resolved env props)) = [varName a, varName b]"
      and "errors (generate env props) = [error_message [c]]"
      by (simp_all add: ne)
  next
    assume z: "zodSchemas env props = [c, a, b]"
    from k [OF z _ round(5)]
    show "Map_keys (statements (resolved env props)) = [varName a, varName b]"
      and "errors (generate env props) = [error_message [c]]"
      by (simp_all add: ne)
  next
    assume z: "zodSchemas env props = [a, b, c]"
    from k [OF z _ round(6)]
    show "Map_keys (statements (resolved env props)) = [varName a, varName b, varName c]"
      and "errors (generate env props) = []"
      by (simp_all add: ne)
  qed
qed

theorem chain_of_three_single_round_witness:
  "Map_keys (statements (resolved
      (example_collaborators [TypeAlias ''B'' [''A''], TypeAlias ''A'' [], TypeAlias ''C'' [''B'']])
      (example_props (Some 1)))) = [''ASchema'']
   \<and> errors (generate
      (example_collaborators [TypeAlias ''B'' [''A''], TypeAlias ''A'' [], TypeAlias ''C'' [''B'']])
      (example_props (Some 1)))
     = [''Some schemas can't be generated due to circular dependencies:\<newline>BSchema\<newline>CSchema'']"
proof -
  let ?E = "example_collaborators [TypeAlias ''B'' [''A''], TypeAlias ''A'' [], TypeAlias ''C'' [''B'']]"
  let ?P = "example_props (Some 1)"
  let ?a = "\<lparr>typeName = ''A'', varName = ''ASchema'', statement = Code ''const ASchema'',
             dependencies = []\<rparr>"
  let ?b = "\<lparr>typeName = ''B'', varName = ''BSchema'', statement = Code ''const BSchema'',
             dependencies = [''ASchema'']\<rparr>"
  let ?c = "\<lparr>typeName = ''C'', varName = ''CSchema'', statement = Code ''const CSchema'',
             dependencies = [''BSchema'']\<rparr>"
  have h1: "maxRun_of ?P = 1" by code_simp
  have h2: "dependencies ?a = []" by simp
  have h3: "set (dependencies ?b) = {varName ?a}" by simp
  have h4: "set (dependencies ?c) = {varName ?b}" by simp
  have h5: "distinct [varName ?a, varName ?b, varName ?c]" by simp
  have zs: "zodSchemas ?E ?P = [?b, ?a, ?c]" by code_simp
  have m: "error_message [?b, ?c]
      = ''Some schemas can't be generated due to circular dependencies:\<newline>BSchema\<newline>CSchema''"
    by code_simp
  note r = chain_of_three_single_round [OF h1 h2 h3 h4 h5, of ?E, THEN conjunct1, rule_format, OF zs]
  from r [THEN conjunct1] r [THEN conjunct2] m show ?thesis by simp
qed

text \<open>
  Claim C2 as stated fails. With the chain \<^verbatim>\<open>A\<close>, \<^verbatim>\<open>B\<close>, \<^verbatim>\<open>C\<close> extracted in the order of the
  dependencies (\<^verbatim>\<open>B\<close> referring to \<^verbatim>\<open>A\<close>, \<^verbatim>\<open>C\<close> to \<^verbatim>\<open>B\<close>) and \<^verbatim>\<open>maxRun\<close> being 1, the
  single round resolves all three candidates and \<^verbatim>\<open>errors\<close> is empty.
\<close>

theorem chain_of_three_single_round_counterexample:
  "maxRun_of (example_props (Some 1)) = 1
   \<and> zodSchemas
        (example_collaborators [TypeAlias ''A'' [], TypeAlias ''B'' [''A''], TypeAlias ''C'' [''B'']])
        (example_props (Some 1))
     = [\<lparr>typeName = ''A'', varName = ''ASchema'', statement = Code ''const ASchema'', dependencies = []\<rparr>,
        \<lparr>typeName = ''B'', varName = ''BSchema'', statement = Code ''const BSchema'',
         dependencies = [''ASchema'']\<rparr>,
        \<lparr>typeName = ''C'', varName = ''CSchema'', statement = Code ''const CSchema'',
         dependencies = [''BSchema'']\<rparr>]
   \<and> rounds_run
        (example_collaborators [TypeAlias ''A'' [], TypeAlias ''B'' [''A''], TypeAlias ''C'' [''B'']])
        (example_props (Some 1)) = 1
   \<and> Map_keys (statements (resolved
        (example_collaborators [TypeAlias ''A'' [], TypeAlias ''B'' [''A''], TypeAlias ''C'' [''B'']])
        (example_props (Some 1)))) = [''ASchema'', ''BSchema'', ''CSchema'']
   \<and> errors (generate
        (example_collaborators [TypeAlias ''A'' [], TypeAlias ''B'' [''A''], TypeAlias ''C'' [''B'']])
        (example_props (Some 1))) = []"
  by code_simp

subsection \<open>The order in which dependencies are listed\<close>

lemma same_candidate_visit:
  assumes "same_candidate z z'"
  shows "visit tr s z = visit tr s z'"
proof -
  from assms have f: "typeName z = typeName z'" "varName z = varName z'"
    "statement z = statement z'" "set (dependencies z) = set (dependencies z')"
    by (simp_all add: same_candidate_def)
  have e: "eligible s z = eligible s z'" unfolding eligible_def f ..
  have t: "stored_entry tr z = stored_entry tr z'" unfolding stored_entry_def f ..
  show ?thesis unfolding visit_eq e t f ..
qed

lemma same_candidate_foldl_visit:
  "list_all2 same_candidate ps ps' \<Longrightarrow> foldl (visit tr) s ps = foldl (visit tr) s ps'"
  by (induction ps ps' arbitrary: s rule: list_all2_induct) (simp_all add: same_candidate_visit)

lemma same_candidate_pending:
  "list_all2 same_candidate zs zs' \<Longrightarrow> list_all2 same_candidate (pending zs s) (pending zs' s)"
  unfolding pending_def
  by (induction zs zs' rule: list_all2_induct) (simp_all add: same_candidate_def)

lemma same_candidate_round:
  "list_all2 same_candidate zs zs' \<Longrightarrow> resolve_round tr zs s = resolve_round tr zs' s"
  unfolding resolve_round_def by (intro same_candidate_foldl_visit same_candidate_pending)

lemma same_candidate_loop:
  assumes "list_all2 same_candidate zs zs'"
  shows "resolve_loop tr zs m n s = resolve_loop tr zs' m n s"
  using assms
proof (induction tr zs m n s rule: resolve_loop.induct)
  case (1 tr zs m n s)
  from "1.prems" have len: "length zs = length zs'" by (rule list_all2_lengthD)
  show ?case
  proof (cases "Map_size (statements s) \<noteq> length zs \<and> n < m")
    case True
    then have "resolve_loop tr zs m n s = resolve_loop tr zs m (n + 1) (resolve_round tr zs s)"
      by (rule resolve_loop_step)
    also have "\<dots> = resolve_loop tr zs' m (n + 1) (resolve_round tr zs s)"
      using True "1.prems" by (rule "1.IH")
    also have "\<dots> = resolve_loop tr zs' m (n + 1) (resolve_round tr zs' s)"
      using "1.prems" by (simp add: same_candidate_round)
    also have "\<dots> = resolve_loop tr zs' m n s"
      using True len by (intro resolve_loop_step [symmetric]) simp
    finally show ?thesis .
  next
    case False
    then have "resolve_loop tr zs m n s = (n, s)" by (rule resolve_loop_stop)
    moreover from False len have "resolve_loop tr zs' m n s = (n, s)"
      by (intro resolve_loop_stop) simp
    ultimately show ?thesis by simp
  qed
qed

lemma same_candidate_missing:
  "list_all2 same_candidate zs zs'
     \<Longrightarrow> map varName (missingStatements zs s) = map varName (missingStatements zs' s)"
  unfolding missingStatements_def
  by (induction zs zs' rule: list_all2_induct) (simp_all add: same_candidate_def)

lemma same_candidate_errors:
  assumes "list_all2 same_candidate zs zs'"
  shows "errors_of zs s = errors_of zs' s"
proof -
  from assms have m: "map varName (missingStatements zs s) = map varName (missingStatements zs' s)"
    by (rule same_candidate_missing)
  then have "length (map varName (missingStatements zs s))
             = length (map varName (missingStatements zs' s))" by simp
  then have l: "length (missingStatements zs s) = length (missingStatements zs' s)" by simp
  have e: "error_message (missingStatements zs s) = error_message (missingStatements zs' s)"
    unfolding error_message_def m ..
  show ?thesis unfolding errors_of_def Let_def l e ..
qed

text \<open>
  The resolver reads a list of dependencies only through membership. If the compiler of a
  declaration lists the dependencies of a statement in another order or with other
  repetitions, all other imported functions and the options being the same, \<^verbatim>\<open>generate\<close>
  returns the same schemas file, the same integration tests file, the same \<^verbatim>\<open>errors\<close> and
  the same \<^verbatim>\<open>hasCircularDependencies\<close>.
\<close>

theorem dependency_order_irrelevant:
  fixes env1 env2 :: "'node collaborators"
  assumes "env2 = env1\<lparr>generateZodSchemaVariableStatement := g\<rparr>"
    and "\<forall>zodImportValue node sourceFile name getDependencyName.
           fst (g zodImportValue node sourceFile name getDependencyName)
             = fst (generateZodSchemaVariableStatement env1 zodImportValue node sourceFile name
                      getDependencyName)
           \<and> set (snd (g zodImportValue node sourceFile name getDependencyName))
             = set (snd (generateZodSchemaVariableStatement env1 zodImportValue node sourceFile name
                      getDependencyName))"
  shows "(\<forall>typesImportPath. getZodSchemasFile (generate env1 props) typesImportPath
                            = getZodSchemasFile (generate env2 props) typesImportPath)
    \<and> (\<forall>typesImportPath zodSchemasImportPath.
          getIntegrationTestFile (generate env1 props) typesImportPath zodSchemasImportPath
          = getIntegrationTestFile (generate env2 props) typesImportPath zodSchemasImportPath)
    \<and> errors (generate env1 props) = errors (generate env2 props)
    \<and> hasCircularDependencies (generate env1 props) = hasCircularDependencies (generate env2 props)"
proof -
  have sf: "sourceFile_of env2 props = sourceFile_of env1 props"
    by (simp add: assms(1) sourceFile_of_def)
  have nd: "nodes env2 props = nodes env1 props"
    by (simp add: nodes_def sf) (simp add: assms(1))
  have cm: "camel env2 = camel env1" by (simp add: assms(1))
  have gs: "getSchemaName_of env2 props = getSchemaName_of env1 props"
    unfolding getSchemaName_of_def cm ..
  have pr: "print env2 props = print env1 props"
    by (simp add: print_def sf fun_eq_iff) (simp add: assms(1))
  have tr: "transformRecursiveSchema env2 = transformRecursiveSchema env1"
    by (simp add: assms(1))
  have gen2: "generateZodSchemaVariableStatement env2 = g" by (simp add: assms(1))
  have nt: "name_text env2 = name_text env1" by (simp add: assms(1))
  have rel: "list_all2 same_candidate (zodSchemas env1 props) (zodSchemas env2 props)"
    unfolding zodSchemas_def nd gs sf gen2 nt list_all2_map1 list_all2_map2
    by (rule list_all2_refl) (simp add: same_candidate_def Let_def assms(2))
  have res: "resolved env1 props = resolved env2 props"
    unfolding resolved_def resolve_def tr using rel by (simp add: same_candidate_loop)
  have er: "errors_of (zodSchemas env1 props) (resolved env2 props)
            = errors_of (zodSchemas env2 props) (resolved env2 props)"
    using rel by (rule same_candidate_errors)
  have tc: "testCases env2 props = testCases env1 props"
    by (simp add: testCases_def gs fun_eq_iff) (simp add: assms(1))
  have f1: "zodSchemasFile env1 props (resolved env2 props) = zodSchemasFile env2 props (resolved env2 props)"
    by (simp add: zodSchemasFile_def pr fun_eq_iff)
  have gz: "generateZodInferredType env2 = generateZodInferredType env1" by (simp add: assms(1))
  have f2: "integrationTestFile env1 props (resolved env2 props)
            = integrationTestFile env2 props (resolved env2 props)"
    by (simp add: integrationTestFile_def pr gs tc gz fun_eq_iff)
  have "generate env1 props = generate env2 props"
    unfolding generate_def Let_def res er f1 f2 ..
  then show ?thesis by simp
qed

theorem dependency_order_irrelevant_example:
  "errors (generate
      (example_collaborators [TypeAlias ''A'' [], TypeAlias ''B'' [], TypeAlias ''C'' [''A'', ''B'']])
      (example_props None))
   = errors (generate
      ((example_collaborators [TypeAlias ''A'' [], TypeAlias ''B'' [], TypeAlias ''C'' [''A'', ''B'']])
         \<lparr>generateZodSchemaVariableStatement :=
            (\<lambda>zodImportValue node sourceFile name getDependencyName.
               (Code (''const '' @ name), rev (map getDependencyName (example_refs node))))\<rparr>)
      (example_props None))
   \<and> getZodSchemasFile (generate
      (example_collaborators [TypeAlias ''A'' [], TypeAlias ''B'' [], TypeAlias ''C'' [''A'', ''B'']])
      (example_props None)) ''./types''
   = getZodSchemasFile (generate
      ((example_collaborators [TypeAlias ''A'' [], TypeAlias ''B'' [], TypeAlias ''C'' [''A'', ''B'']])
         \<lparr>generateZodSchemaVariableStatement :=
            (\<lambda>zodImportValue node sourceFile name getDependencyName.
               (Code (''const '' @ name), rev (map getDependencyName (example_refs node))))\<rparr>)
      (example_props None)) ''./types''"
proof -
  let ?E = "example_collaborators [TypeAlias ''A'' [], TypeAlias ''B'' [], TypeAlias ''C'' [''A'', ''B'']]"
  let ?g = "\<lambda>zodImportValue node sourceFile name getDependencyName.
               (Code (''const '' @ name), rev (map getDependencyName (example_refs node)))"
  let ?P = "example_props None"
  have h: "\<forall>zodImportValue node sourceFile name getDependencyName.
           fst (?g zodImportValue node sourceFile name getDependencyName)
             = fst (generateZodSchemaVariableStatement ?E zodImportValue node sourceFile name
                      getDependencyName)
           \<and> set (snd (?g zodImportValue node sourceFile name getDependencyName))
             = set (snd (generateZodSchemaVariableStatement ?E zodImportValue node sourceFile name
                      getDependencyName))"
    by (simp add: example_collaborators_def)
  note r = dependency_order_irrelevant [OF refl h, of ?P]
  from r [THEN conjunct1, rule_format, of "''./types''"]
    r [THEN conjunct2, THEN conjunct2, THEN conjunct1]
  show ?thesis by simp
qed

end
